theory Spec2Isabelle
  imports Complex_Main "HOL-Library.AList" "HOL-Library.Log_Nat"
begin

section \<open>Python strings\<close>

text \<open>
  A Python \<open>str\<close> is modelled as a \<open>string\<close> whose characters are the code points
  below 256.  On that range \<open>str.isspace\<close> holds for the code points 9-13, 28-32, 133
  and 160, and \<open>str.splitlines\<close> breaks a line at 10-13, 28-30 and 133, with the pair
  13,10 counted as one break.
\<close>

definition is_space :: "char \<Rightarrow> bool" where
  "is_space c = (of_char c \<in> set [9, 10, 11, 12, 13, 28, 29, 30, 31, 32, 133, 160 :: nat])"

definition is_linebreak :: "char \<Rightarrow> bool" where
  "is_linebreak c = (of_char c \<in> set [10, 11, 12, 13, 28, 29, 30, 133 :: nat])"

text \<open>\<open>s.strip()\<close>: whitespace removed at both ends.\<close>

definition strip :: "string \<Rightarrow> string" where
  "strip s = rev (dropWhile is_space (rev (dropWhile is_space s)))"

text \<open>
  \<open>s.splitlines()\<close>: the first argument collects the current line in reverse.  A line
  break closes the current line, even an empty one; the end of the text closes it only
  when it is not empty.
\<close>

fun splitlines_from :: "string \<Rightarrow> string \<Rightarrow> string list" where
  "splitlines_from cur [] = (if cur = [] then [] else [rev cur])"
| "splitlines_from cur [c] = (if is_linebreak c then [rev cur] else [rev (c # cur)])"
| "splitlines_from cur (c # d # cs) =
     (if c = CHR 0x0D \<and> d = CHR 0x0A then rev cur # splitlines_from [] cs
      else if is_linebreak c then rev cur # splitlines_from [] (d # cs)
      else splitlines_from (c # cur) (d # cs))"

definition splitlines :: "string \<Rightarrow> string list" where
  "splitlines s = splitlines_from [] s"

text \<open>
  \<open>s.split(sep, 1)\<close> for a one-character separator that occurs in \<open>s\<close>: the text
  before the first occurrence and the text after it.
\<close>

definition split_once :: "char \<Rightarrow> string \<Rightarrow> string \<times> string" where
  "split_once sep s = (takeWhile (\<lambda>c. c \<noteq> sep) s, drop 1 (dropWhile (\<lambda>c. c \<noteq> sep) s))"

section \<open>Exceptions\<close>

text \<open>
  The errors the configuration code raises, as values.  The two \<open>ValueError\<close>s of
  \<open>parse_header_lines\<close> have constructors of their own and carry the offending line,
  which their message quotes with \<open>{line!r}\<close>; \<open>ValueError\<close> carries the message of
  one raised with a plain message.  \<open>KeyError\<close> carries the missing key, \<open>OSError\<close> the
  path of a file that cannot be read or written, \<open>UnicodeDecodeError\<close> the path of a
  file that is not UTF-8 text, and \<open>JSONDecodeError\<close> the path of a file that does not
  hold JSON.  \<open>IntLiteralError\<close> and \<open>FloatLiteralError\<close> are the \<open>ValueError\<close>s with
  which \<open>int\<close> and \<open>float\<close> refuse a text (\<open>invalid literal for int() with base 10\<close>,
  \<open>could not convert string to float\<close>), and carry that text.  The messages of
  \<open>TypeError\<close> and \<open>OverflowError\<close> are not modelled.
\<close>

datatype error =
    HeaderFormatError string
  | HeaderNameEmpty string
  | ValueError string
  | KeyError string
  | OSError string
  | JSONDecodeError string
  | UnicodeDecodeError string
  | IntLiteralError string
  | FloatLiteralError string
  | TypeError
  | OverflowError

text \<open>
  \<open>isinstance(e, ValueError)\<close>: \<open>json.JSONDecodeError\<close> and \<open>UnicodeDecodeError\<close> are
  subclasses of \<open>ValueError\<close>.
\<close>

fun is_ValueError :: "error \<Rightarrow> bool" where
  "is_ValueError (HeaderFormatError line) = True"
| "is_ValueError (HeaderNameEmpty line) = True"
| "is_ValueError (ValueError msg) = True"
| "is_ValueError (KeyError k) = False"
| "is_ValueError (OSError path) = False"
| "is_ValueError (JSONDecodeError path) = True"
| "is_ValueError (UnicodeDecodeError path) = True"
| "is_ValueError (IntLiteralError s) = True"
| "is_ValueError (FloatLiteralError s) = True"
| "is_ValueError TypeError = False"
| "is_ValueError OverflowError = False"

section \<open>Header parsing\<close>

text \<open>
  A \<open>dict\<close> is an association list in insertion order; \<open>d[k] = v\<close> is
  \<open>AList.update k v d\<close>, which replaces the value of a key already present and appends
  a new key at the end.
\<close>

type_synonym headers = "(string \<times> string) list"

fun parse_header_loop :: "headers \<Rightarrow> string list \<Rightarrow> error + headers" where
  "parse_header_loop headers [] = Inr headers"
| "parse_header_loop headers (line # rest) =
     (let striped = strip line in
      if striped = [] then parse_header_loop headers rest
      else if CHR '':'' \<notin> set striped then Inl (HeaderFormatError line)
      else
        let (name0, value0) = split_once CHR '':'' striped;
            name = strip name0;
            val = strip value0
        in if name = [] then Inl (HeaderNameEmpty line)
           else parse_header_loop (AList.update name val headers) rest)"

definition parse_header_lines :: "string \<Rightarrow> error + headers" where
  "parse_header_lines raw = parse_header_loop [] (splitlines raw)"

text \<open>
  The reading of a header line in the specification's words: the trimmed line is split at
  its first colon, and the name and the value are the trimmed parts.
\<close>

definition header_of :: "string \<Rightarrow> string \<Rightarrow> string \<Rightarrow> bool" where
  "header_of line name val \<longleftrightarrow>
     (\<exists>n v. strip line = n @ CHR '':'' # v \<and> CHR '':'' \<notin> set n \<and> name = strip n \<and> val = strip v)"

text \<open>
  A line that is not blank and either has no colon or has an empty name before its first
  colon.
\<close>

definition malformed :: "string \<Rightarrow> bool" where
  "malformed line \<longleftrightarrow>
     strip line \<noteq> [] \<and>
     (CHR '':'' \<notin> set (strip line) \<or> strip (takeWhile (\<lambda>c. c \<noteq> CHR '':'') (strip line)) = [])"

text \<open>The value the last line naming \<open>k\<close> gives it, if any line names it.\<close>

fun last_header :: "string list \<Rightarrow> string \<Rightarrow> string option" where
  "last_header [] k = None"
| "last_header (l # ls) k =
     (case last_header ls k of
        Some v \<Rightarrow> Some v
      | None \<Rightarrow>
          if CHR '':'' \<in> set (strip l) \<and> strip (fst (split_once CHR '':'' (strip l))) = k
          then Some (strip (snd (split_once CHR '':'' (strip l)))) else None)"


section \<open>Floating-point numbers\<close>

text \<open>
  A Python \<open>float\<close> is an IEEE 754 binary64 number.  The finite ones are modelled as
  the reals they denote, and every arithmetic operation rounds its exact result to the
  nearest representable number, ties to the even significand (\<open>fl\<close>).  A normal number
  has 53 significant bits; below \<open>2 powi (-1022)\<close> the spacing stays \<open>2 powi (-1074)\<close>.
  Overflow to infinity is not modelled: the exponent is unbounded above.
\<close>

text \<open>The integer nearest to \<open>x\<close>, the even one of the two when \<open>x\<close> lies half-way.\<close>

definition round_half_even :: "real \<Rightarrow> int" where
  "round_half_even x =
     (let f = \<lfloor>x\<rfloor>; d = x - of_int f
      in if d < 1 / 2 then f else if 1 / 2 < d then f + 1 else if even f then f else f + 1)"

text \<open>For \<open>0 < a\<close>, the exponent \<open>e\<close> with \<open>2 powi e \<le> a < 2 powi (e + 1)\<close>.\<close>

definition ilog2 :: "real \<Rightarrow> int" where
  "ilog2 a = (if 1 \<le> a then bitlen \<lfloor>a\<rfloor> - 1 else - bitlen (\<lceil>1 / a\<rceil> - 1))"

definition fl :: "real \<Rightarrow> real" where
  "fl x =
     (if x = 0 then 0
      else let e = max (ilog2 \<bar>x\<bar>) (- 1022) - 52
           in of_int (round_half_even (x / 2 powi e)) * 2 powi e)"

definition fadd :: "real \<Rightarrow> real \<Rightarrow> real" where
  "fadd x y = fl (x + y)"

definition fsub :: "real \<Rightarrow> real \<Rightarrow> real" where
  "fsub x y = fl (x - y)"

definition fmul :: "real \<Rightarrow> real \<Rightarrow> real" where
  "fmul x y = fl (x * y)"

definition fdiv :: "real \<Rightarrow> real \<Rightarrow> real" where
  "fdiv x y = fl (x / y)"

text \<open>\<open>float(n)\<close> for an integer \<open>n\<close>.\<close>

definition float_of_int :: "int \<Rightarrow> real" where
  "float_of_int n = fl (of_int n)"

section \<open>Latency accumulator\<close>

record LatencyStats =
  count :: int
  total_ms :: real
  min_ms :: "real option"
  max_ms :: "real option"

text \<open>The dataclass defaults: \<open>LatencyStats()\<close>.\<close>

definition LatencyStats_init :: LatencyStats where
  "LatencyStats_init = \<lparr>count = 0, total_ms = 0, min_ms = None, max_ms = None\<rparr>"

definition add :: "LatencyStats \<Rightarrow> real \<Rightarrow> LatencyStats" where
  "add s latency_ms =
     s\<lparr>count := count s + 1,
       total_ms := fadd (total_ms s) latency_ms,
       min_ms := (case min_ms s of
                    None \<Rightarrow> Some latency_ms
                  | Some m \<Rightarrow> if latency_ms < m then Some latency_ms else Some m),
       max_ms := (case max_ms s of
                    None \<Rightarrow> Some latency_ms
                  | Some m \<Rightarrow> if latency_ms > m then Some latency_ms else Some m)\<rparr>"

text \<open>\<open>mean\<close> divides the float total by the integer count, converted to a float.\<close>

definition mean :: "LatencyStats \<Rightarrow> real option" where
  "mean s = (if count s = 0 then None else Some (fdiv (total_ms s) (float_of_int (count s))))"

text \<open>The accumulator after a sequence of \<open>add\<close> calls on a fresh one.\<close>

definition record_all :: "real list \<Rightarrow> LatencyStats" where
  "record_all xs = foldl add LatencyStats_init xs"

section \<open>Request executor\<close>

text \<open>
  What a task can raise while it runs: an instance of \<open>Exception\<close> (its class name and
  its \<open>str\<close>), \<open>asyncio.CancelledError\<close>, or another exception that derives from
  \<open>BaseException\<close> only (\<open>KeyboardInterrupt\<close>, \<open>SystemExit\<close>).  Since Python 3.8, which
  the required aiohttp 3.9 needs, \<open>CancelledError\<close> is not an \<open>Exception\<close>, so an
  \<open>except Exception\<close> clause does not catch it.
\<close>

datatype raised =
    Exception string string
  | CancelledError
  | BaseException string string

fun is_Exception :: "raised \<Rightarrow> bool" where
  "is_Exception (Exception cls msg) = True"
| "is_Exception CancelledError = False"
| "is_Exception (BaseException cls msg) = False"

text \<open>\<open>str(exc)\<close>.\<close>

fun exc_str :: "raised \<Rightarrow> string" where
  "exc_str (Exception cls msg) = msg"
| "exc_str CancelledError = []"
| "exc_str (BaseException cls msg) = msg"

text \<open>
  The network is the environment of \<open>fetch\<close>: the body of its \<open>try\<close>, the request and
  the reading of the response, either yields a response with a status code or raises.
\<close>

datatype transport_result = Responded int | Raised raised

text \<open>The tuple \<open>(status, latency_ms, error)\<close>; \<open>None\<close> is Python's \<open>None\<close>.\<close>

type_synonym outcome = "int option \<times> real option \<times> string option"

text \<open>
  \<open>fetch\<close>, given the two readings of \<open>time.perf_counter()\<close>, \<open>t0\<close> before the request
  and \<open>t1\<close> when it ended, and what the transport did.  The arguments \<open>session\<close>,
  \<open>method\<close>, \<open>url\<close>, \<open>timeout_s\<close>, \<open>headers\<close> and \<open>body\<close> only reach the transport.  The
  result is \<open>Inl\<close> when the exception leaves \<open>fetch\<close>.
\<close>

definition fetch :: "real \<Rightarrow> real \<Rightarrow> transport_result \<Rightarrow> raised + outcome" where
  "fetch t0 t1 r =
     (case r of
        Responded status \<Rightarrow> Inr (Some status, Some (fmul (fsub t1 t0) 1000), None)
      | Raised exc \<Rightarrow>
          if is_Exception exc
          then Inr (None, Some (fmul (fsub t1 t0) 1000), Some (exc_str exc))
          else Inl exc)"

section \<open>Status tally\<close>

text \<open>
  The key of the tally is the integer status or the string \<open>"ERR"\<close>.  A \<open>Counter\<close> is a
  dictionary whose missing keys read as 0, so \<open>c[k] += 1\<close> stores the old count plus one.
\<close>

datatype status_key = Code int | ERR

type_synonym counter = "(status_key \<times> int) list"

definition counter_get :: "counter \<Rightarrow> status_key \<Rightarrow> int" where
  "counter_get c k = (case map_of c k of None \<Rightarrow> 0 | Some n \<Rightarrow> n)"

definition counter_incr :: "counter \<Rightarrow> status_key \<Rightarrow> counter" where
  "counter_incr c k = AList.update k (counter_get c k + 1) c"

text \<open>\<open>sum(status_counts.values())\<close>.\<close>

definition counter_total :: "counter \<Rightarrow> int" where
  "counter_total c = sum_list (map snd c)"

text \<open>\<open>str(n)\<close> for an integer: its decimal digits, with a minus sign when negative.\<close>

fun str_nat :: "nat \<Rightarrow> string" where
  "str_nat n = (if n < 10 then [char_of (48 + n)] else str_nat (n div 10) @ [char_of (48 + n mod 10)])"

declare str_nat.simps [simp del]

definition str_int :: "int \<Rightarrow> string" where
  "str_int i = (if i < 0 then CHR ''-'' # str_nat (nat (- i)) else str_nat (nat i))"

fun str_status_key :: "status_key \<Rightarrow> string" where
  "str_status_key (Code n) = str_int n"
| "str_status_key ERR = ''ERR''"

section \<open>Pacing driver\<close>

text \<open>
  A line put on the log queue.  The text of a line is not modelled, its fields are: for
  a request, the sequence number, the status display, the latency and the trimmed error
  text (the time stamp, read from the wall clock, is left out); for the final line, the
  number sent and the elapsed seconds.
\<close>

datatype log_line =
    LogRequest int string "real option" string
  | LogEnd int real

text \<open>
  The local variables of \<open>run_probe\<close> that its loops update.  The last four fields are
  not variables of the program: they count the waves started, the tasks created by
  \<open>asyncio.create_task\<close>, the \<open>task.cancel()\<close> calls, and the finished tasks that the
  \<open>except asyncio.CancelledError: continue\<close> branch passed over.  Nothing reads them.
\<close>

record probe_state =
  sent :: int
  latencies :: LatencyStats
  status_counts :: counter
  log_queue :: "log_line list"
  waves_started :: nat
  tasks_created :: nat
  cancel_calls :: nat
  tasks_skipped :: nat

text \<open>
  The statements of the \<open>for finished in done\<close> body after the \<open>try\<close>: one request is
  counted, its latency recorded when there is one, its status key tallied, and its line
  logged.
\<close>

definition record_outcome :: "probe_state \<Rightarrow> outcome \<Rightarrow> probe_state" where
  "record_outcome s out =
     (case out of (status, latency_ms, error) \<Rightarrow>
        let sent' = sent s + 1;
            latencies' = (case latency_ms of
                            None \<Rightarrow> latencies s
                          | Some l \<Rightarrow> add (latencies s) l);
            status_key = (case status of None \<Rightarrow> ERR | Some code \<Rightarrow> Code code);
            err_txt = strip (case error of None \<Rightarrow> [] | Some e \<Rightarrow> e);
            line = LogRequest sent' (str_status_key status_key) latency_ms err_txt
        in s\<lparr>sent := sent',
             latencies := latencies',
             status_counts := counter_incr (status_counts s) status_key,
             log_queue := log_queue s @ [line]\<rparr>)"

text \<open>
  The body of \<open>for finished in done\<close>, given what \<open>finished.result()\<close> returns or raises.
  A cancelled task is passed over; any other exception that is an \<open>Exception\<close> becomes
  an error outcome with latency 0; an exception that is neither leaves \<open>run_probe\<close>.
\<close>

definition process_finished :: "probe_state \<Rightarrow> raised + outcome \<Rightarrow> raised + probe_state" where
  "process_finished s res =
     (case res of
        Inl CancelledError \<Rightarrow> Inr (s\<lparr>tasks_skipped := tasks_skipped s + 1\<rparr>)
      | Inl (Exception cls msg) \<Rightarrow> Inr (record_outcome s (None, Some 0, Some (cls @ '': '' @ msg)))
      | Inl (BaseException cls msg) \<Rightarrow> Inl (BaseException cls msg)
      | Inr out \<Rightarrow> Inr (record_outcome s out))"

text \<open>
  A finished task: every task runs \<open>fetch\<close>, so its result is the one of \<open>fetch\<close> on the
  task's two clock readings and on what the transport did.
\<close>

record completion =
  t_start :: real
  t_end :: real
  transport :: transport_result

definition task_result :: "completion \<Rightarrow> raised + outcome" where
  "task_result c = fetch (t_start c) (t_end c) (transport c)"

text \<open>The loop \<open>for finished in done\<close>.\<close>

fun process_done :: "probe_state \<Rightarrow> completion list \<Rightarrow> raised + probe_state" where
  "process_done s [] = Inr s"
| "process_done s (c # cs) =
     (case process_finished s (task_result c) of
        Inl e \<Rightarrow> Inl e
      | Inr s' \<Rightarrow> process_done s' cs)"

text \<open>
  The loop \<open>while pending\<close>.  The environment gives, for each iteration, the reading of
  \<open>stop_flag.is_set()\<close> and the set \<open>done\<close> that \<open>asyncio.wait\<close> returns, which may be
  empty; \<open>pending\<close> is the number of tasks still pending.  When the flag is set every
  pending task is cancelled before the wait.  The result is \<open>None\<close> when the
  observations end while tasks are still pending, or name more finished tasks than are
  pending.
\<close>

fun drain_pending ::
  "nat \<Rightarrow> (bool \<times> completion list) list \<Rightarrow> probe_state \<Rightarrow> (raised + probe_state) option" where
  "drain_pending pending [] s = (if pending = 0 then Some (Inr s) else None)"
| "drain_pending pending ((stop, done) # rounds) s =
     (if pending = 0 then Some (Inr s)
      else if pending < length done then None
      else
        let s1 = (if stop then s\<lparr>cancel_calls := cancel_calls s + pending\<rparr> else s)
        in case process_done s1 done of
             Inl e \<Rightarrow> Some (Inl e)
           | Inr s2 \<Rightarrow> drain_pending (pending - length done) rounds s2)"

text \<open>
  What the environment shows during one iteration of the outer loop: the clock and the
  stop flag read by the loop condition, and the iterations of \<open>while pending\<close>.
\<close>

record wave_obs =
  now :: real
  stop_set :: bool
  rounds :: "(bool \<times> completion list) list"

text \<open>
  The outer loop \<open>while time.perf_counter() < end_time and not stop_flag.is_set()\<close>.
  Each wave creates \<open>rps\<close> tasks (\<open>range(rps)\<close> is empty for \<open>rps \<le> 0\<close>) and drains them.
  The sleep that ends a wave only lets time pass, and the clock is read from the
  environment.  The result is \<open>None\<close> when the observations end before the loop does.
\<close>

fun run_waves ::
  "int \<Rightarrow> real \<Rightarrow> wave_obs list \<Rightarrow> probe_state \<Rightarrow> (raised + probe_state) option" where
  "run_waves rps end_time [] s = None"
| "run_waves rps end_time (w # ws) s =
     (if now w < end_time \<and> \<not> stop_set w then
        (case drain_pending (nat rps) (rounds w)
                (s\<lparr>waves_started := waves_started s + 1,
                   tasks_created := tasks_created s + nat rps\<rparr>) of
           None \<Rightarrow> None
         | Some (Inl e) \<Rightarrow> Some (Inl e)
         | Some (Inr s') \<Rightarrow> run_waves rps end_time ws s')
      else Some (Inr s))"

text \<open>A naive \<open>datetime\<close>, as \<open>datetime.utcnow()\<close> returns it.\<close>

record datetime =
  year :: nat
  month :: nat
  day :: nat
  hour :: nat
  minute :: nat
  second :: nat
  microsecond :: nat

record RunSummary =
  total_sent :: int
  status_counts :: counter
  elapsed_s :: real
  latencies :: LatencyStats
  started_at :: datetime

text \<open>
  The environment of a run: the first clock reading, the reading of \<open>datetime.utcnow()\<close>,
  the observations of the waves, and the clock reading after the loop.
\<close>

record probe_env =
  start :: real
  summary_start :: datetime
  waves :: "wave_obs list"
  finish :: real

definition probe_state_init :: probe_state where
  "probe_state_init =
     \<lparr>sent = 0, latencies = LatencyStats_init, status_counts = [], log_queue = [],
      waves_started = 0, tasks_created = 0, cancel_calls = 0, tasks_skipped = 0\<rparr>"

text \<open>
  \<open>run_probe\<close>.  The result is \<open>None\<close> when the observations are too short, \<open>Inl\<close> when
  an exception leaves the function, and otherwise the summary with the final state.
\<close>

definition run_probe ::
  "string \<Rightarrow> string \<Rightarrow> int \<Rightarrow> int \<Rightarrow> real \<Rightarrow> headers \<Rightarrow> string option \<Rightarrow> probe_env
     \<Rightarrow> (raised + RunSummary \<times> probe_state) option" where
  "run_probe url method rps duration_s timeout_s hdrs body env =
     (let end_time = fadd (start env) (float_of_int duration_s)
      in case run_waves rps end_time (waves env) probe_state_init of
           None \<Rightarrow> None
         | Some (Inl e) \<Rightarrow> Some (Inl e)
         | Some (Inr s) \<Rightarrow>
             let total = fsub (finish env) (start env);
                 s' = s\<lparr>log_queue := log_queue s @ [LogEnd (sent s) total]\<rparr>
             in Some (Inr (\<lparr>total_sent = sent s,
                             status_counts = probe_state.status_counts s,
                             elapsed_s = total,
                             latencies = probe_state.latencies s,
                             started_at = summary_start env\<rparr>, s')))"

text \<open>The readings of the stop flag of a run, in the order the program makes them.\<close>

definition stop_readings :: "wave_obs list \<Rightarrow> bool list" where
  "stop_readings ws = concat (map (\<lambda>w. stop_set w # map fst (rounds w)) ws)"

text \<open>
  Three example environments.  In the first, one wave of two requests runs for the
  configured second: one request is answered with status 429 and the other fails to
  connect.  In the second, the stop flag is set while the only request of the first wave
  is pending, and the cancelled request ends with \<open>CancelledError\<close>.  In the third, a
  wave of two requests has one answered before the stop flag is set and the other
  cancelled.
\<close>

definition example_start :: datetime where
  "example_start =
     \<lparr>year = 2024, month = 5, day = 17, hour = 9, minute = 30, second = 0, microsecond = 0\<rparr>"

definition env_mixed :: probe_env where
  "env_mixed =
     \<lparr>start = 0, summary_start = example_start,
      waves =
        [\<lparr>now = 0, stop_set = False,
          rounds =
            [(False, [\<lparr>t_start = 0, t_end = 1 / 64, transport = Responded 429\<rparr>]),
             (False, []),
             (False, [\<lparr>t_start = 0, t_end = 1 / 32,
                       transport = Raised (Exception ''ClientConnectorError'' ''refused'')\<rparr>])]\<rparr>,
         \<lparr>now = 1, stop_set = False, rounds = []\<rparr>],
      finish = 1\<rparr>"

definition env_cancel :: probe_env where
  "env_cancel =
     \<lparr>start = 0, summary_start = example_start,
      waves =
        [\<lparr>now = 0, stop_set = False,
          rounds =
            [(True, [\<lparr>t_start = 0, t_end = 1 / 64, transport = Raised CancelledError\<rparr>])]\<rparr>,
         \<lparr>now = 1 / 32, stop_set = True, rounds = []\<rparr>],
      finish = 1 / 32\<rparr>"

definition env_stop :: probe_env where
  "env_stop =
     \<lparr>start = 0, summary_start = example_start,
      waves =
        [\<lparr>now = 0, stop_set = False,
          rounds =
            [(False, [\<lparr>t_start = 0, t_end = 1 / 64, transport = Responded 200\<rparr>]),
             (True, [\<lparr>t_start = 0, t_end = 1 / 16, transport = Raised CancelledError\<rparr>])]\<rparr>,
         \<lparr>now = 1 / 8, stop_set = True, rounds = []\<rparr>],
      finish = 1 / 8\<rparr>"

text \<open>The three counts of the loop state agree.\<close>

definition counts_agree :: "probe_state \<Rightarrow> bool" where
  "counts_agree s \<longleftrightarrow>
     counter_total (probe_state.status_counts s) = sent s \<and>
     sent s = count (probe_state.latencies s)"

section \<open>Run summary\<close>

text \<open>
  The values \<open>to_dict\<close> builds and \<open>json.dumps\<close> writes: integers, floats, strings, and
  dictionaries with string keys, in insertion order.
\<close>

datatype json = JInt int | JFloat real | JStr string | JDict "(string \<times> json) list"

text \<open>
  \<open>round(x, 3)\<close> on a float: the exact value of \<open>x\<close> is rounded to the nearest multiple
  of \<open>0.001\<close>, ties to the even one, and the result is the float nearest to that decimal.
\<close>

definition round3 :: "real \<Rightarrow> real" where
  "round3 x = fl (of_int (round_half_even (x * 1000)) / 1000)"

text \<open>\<open>s.zfill(w)\<close> on a string of digits, and \<open>datetime.isoformat()\<close> of a naive datetime.\<close>

definition zfill :: "nat \<Rightarrow> string \<Rightarrow> string" where
  "zfill w s = replicate (w - length s) CHR ''0'' @ s"

definition isoformat :: "datetime \<Rightarrow> string" where
  "isoformat dt =
     zfill 4 (str_nat (year dt)) @ ''-'' @ zfill 2 (str_nat (month dt)) @ ''-'' @
     zfill 2 (str_nat (day dt)) @ ''T'' @ zfill 2 (str_nat (hour dt)) @ '':'' @
     zfill 2 (str_nat (minute dt)) @ '':'' @ zfill 2 (str_nat (second dt)) @
     (if microsecond dt = 0 then [] else ''.'' @ zfill 6 (str_nat (microsecond dt)))"

text \<open>The values a \<open>datetime\<close> object can hold (the day is not checked against the month).\<close>

definition valid_datetime :: "datetime \<Rightarrow> bool" where
  "valid_datetime dt \<longleftrightarrow>
     1 \<le> year dt \<and> year dt \<le> 9999 \<and> 1 \<le> month dt \<and> month dt \<le> 12 \<and>
     1 \<le> day dt \<and> day dt \<le> 31 \<and> hour dt < 24 \<and> minute dt < 60 \<and> second dt < 60 \<and>
     microsecond dt < 1000000"

text \<open>The dictionary comprehension \<open>{str(k): v for k, v in status_counts.items()}\<close>.\<close>

definition status_counts_dict :: "counter \<Rightarrow> (string \<times> json) list" where
  "status_counts_dict c = foldl (\<lambda>d (k, v). AList.update (str_status_key k) (JInt v) d) [] c"

text \<open>\<open>x or 0.0\<close> for an optional float: \<open>None\<close> and \<open>0.0\<close> are both false.\<close>

definition or_zero :: "real option \<Rightarrow> real" where
  "or_zero x = (case x of None \<Rightarrow> 0 | Some v \<Rightarrow> v)"

definition to_dict :: "RunSummary \<Rightarrow> json" where
  "to_dict self =
     JDict
       [(''total_sent'', JInt (total_sent self)),
        (''elapsed_s'', JFloat (round3 (elapsed_s self))),
        (''status_counts'', JDict (status_counts_dict (status_counts self))),
        (''started_at'', JStr (isoformat (started_at self) @ ''Z'')),
        (''latency'',
           if count (latencies self) \<noteq> 0
           then JDict
                  [(''count'', JInt (count (latencies self))),
                   (''average_ms'', JFloat (round3 (or_zero (mean (latencies self))))),
                   (''min_ms'', JFloat (round3 (or_zero (min_ms (latencies self))))),
                   (''max_ms'', JFloat (round3 (or_zero (max_ms (latencies self)))))]
           else JDict [(''count'', JInt 0)])]"

text \<open>\<open>d[k]\<close> on a dictionary value.\<close>

fun json_get :: "json \<Rightarrow> string \<Rightarrow> json option" where
  "json_get (JDict d) k = map_of d k"
| "json_get j k = None"

definition is_digit :: "char \<Rightarrow> bool" where
  "is_digit c \<longleftrightarrow> 48 \<le> (of_char c :: nat) \<and> (of_char c :: nat) \<le> 57"

text \<open>\<open>int(s)\<close> for a string of decimal digits.\<close>

definition nat_of_digits :: "string \<Rightarrow> nat" where
  "nat_of_digits s = foldl (\<lambda>acc c. 10 * acc + (of_char c - 48)) 0 s"

text \<open>
  The specification's wording of the serialised fields.  A number rounded to three
  decimals is the float nearest to \<open>k / 1000\<close> for an integer \<open>k\<close> at most half a
  thousandth away.  The time stamp of a date and time, in ISO 8601 form with the UTC
  designator, is \<open>YYYY-MM-DDThh:mm:ss\<close> followed by \<open>Z\<close>, where each group of digits
  has the given width and reads as the corresponding field, with a fraction of six
  digits that reads as the microseconds put before the \<open>Z\<close> exactly when the
  microseconds are not zero.
\<close>

definition rounded_3dp :: "real \<Rightarrow> real \<Rightarrow> bool" where
  "rounded_3dp x r \<longleftrightarrow> (\<exists>k :: int. r = fl (of_int k / 1000) \<and> \<bar>x * 1000 - of_int k\<bar> \<le> 1 / 2)"

definition digits :: "nat \<Rightarrow> string \<Rightarrow> bool" where
  "digits n s \<longleftrightarrow> length s = n \<and> list_all is_digit s"

definition reads_as :: "nat \<Rightarrow> string \<Rightarrow> nat \<Rightarrow> bool" where
  "reads_as w s n \<longleftrightarrow> digits w s \<and> nat_of_digits s = n"

definition iso8601_utc :: "datetime \<Rightarrow> string \<Rightarrow> bool" where
  "iso8601_utc dt s \<longleftrightarrow>
     (\<exists>Y M D h m sec frac.
        s = Y @ ''-'' @ M @ ''-'' @ D @ ''T'' @ h @ '':'' @ m @ '':'' @ sec @ frac @ ''Z'' \<and>
        reads_as 4 Y (year dt) \<and> reads_as 2 M (month dt) \<and> reads_as 2 D (day dt) \<and>
        reads_as 2 h (hour dt) \<and> reads_as 2 m (minute dt) \<and> reads_as 2 sec (second dt) \<and>
        ((microsecond dt = 0 \<and> frac = []) \<or>
         (microsecond dt \<noteq> 0 \<and> (\<exists>f. frac = ''.'' @ f \<and> reads_as 6 f (microsecond dt)))))"

text \<open>
  An example summary: six requests answered with status 200 in 10 ms each, after
  \<open>2049 / 1024\<close> seconds, started seven microseconds after the example start.
\<close>

definition summary_example :: RunSummary where
  "summary_example =
     \<lparr>total_sent = 6, status_counts = [(Code 200, 6)], elapsed_s = 2049 / 1024,
      latencies = record_all [10, 10, 10, 10, 10, 10],
      started_at = example_start\<lparr>microsecond := 7\<rparr>\<rparr>"


section \<open>JSON text\<close>

text \<open>
  \<open>json.dumps(payload, ensure_ascii=False, indent=2)\<close> and \<open>json.loads\<close>, on the values
  of type \<open>json\<close>.  A string is written between double quotes, with the quote, the
  backslash and the control characters below 32 escaped and every other character
  as it is.
\<close>

definition hex_digit :: "nat \<Rightarrow> char" where
  "hex_digit n = (if n < 10 then char_of (48 + n) else char_of (87 + n))"

definition escape_char :: "char \<Rightarrow> string" where
  "escape_char c =
     (if c = CHR 0x22 then [CHR 0x5C, CHR 0x22]
      else if c = CHR 0x5C then [CHR 0x5C, CHR 0x5C]
      else if c = CHR 0x0A then [CHR 0x5C, CHR ''n'']
      else if c = CHR 0x0D then [CHR 0x5C, CHR ''r'']
      else if c = CHR 0x09 then [CHR 0x5C, CHR ''t'']
      else if c = CHR 0x08 then [CHR 0x5C, CHR ''b'']
      else if c = CHR 0x0C then [CHR 0x5C, CHR ''f'']
      else if (of_char c :: nat) < 32
        then [CHR 0x5C, CHR ''u'', CHR ''0'', CHR ''0'',
              hex_digit ((of_char c :: nat) div 16), hex_digit ((of_char c :: nat) mod 16)]
      else [c])"

definition encode_str :: "string \<Rightarrow> string" where
  "encode_str s = CHR 0x22 # concat (map escape_char s) @ [CHR 0x22]"

text \<open>
  \<open>repr\<close> of a float is the shortest decimal that reads back as the same float.  For a
  float that is zero or of magnitude from \<open>0.0001\<close> up to \<open>10^16\<close> Python writes it
  without an exponent, with at least one digit after the point: the decimal with the
  fewest digits after the point whose nearest float is the given one.  It has at most
  17 significant digits, so at most 20 digits after the point.
  \<open>repr_decimal x\<close> is that decimal as the pair of an integer \<open>k\<close> and the number \<open>m\<close> of
  digits after the point, \<open>k / 10 ^ m\<close>.  Outside that range Python writes an exponent,
  which is not modelled: \<open>repr_decimal\<close> is \<open>None\<close> there.
\<close>

definition reads_back :: "real \<Rightarrow> nat \<Rightarrow> bool" where
  "reads_back x m \<longleftrightarrow> fl (of_int (round_half_even (x * 10 ^ m)) / 10 ^ m) = x"

definition repr_decimal :: "real \<Rightarrow> (int \<times> nat) option" where
  "repr_decimal x =
     (if x = 0 \<or> (1 / 10 ^ 4 \<le> \<bar>x\<bar> \<and> \<bar>x\<bar> < 10 ^ 16)
      then map_option (\<lambda>m. (round_half_even (x * 10 ^ m), m)) (find (reads_back x) [1..<21])
      else None)"

text \<open>The digits of \<open>k / 10 ^ m\<close>: the sign, the integer part, the point, \<open>m\<close> digits.\<close>

definition decimal_str :: "int \<Rightarrow> nat \<Rightarrow> string" where
  "decimal_str k m =
     (let ds = zfill (Suc m) (str_nat (nat \<bar>k\<bar>))
      in (if k < 0 then ''-'' else []) @ take (length ds - m) ds @ ''.'' @ drop (length ds - m) ds)"

definition float_repr :: "real \<Rightarrow> string" where
  "float_repr x = (case repr_decimal x of None \<Rightarrow> [] | Some (k, m) \<Rightarrow> decimal_str k m)"

text \<open>
  The text of a value at a nesting level: the entries of a dictionary stand on lines
  of their own, indented by two spaces for each level, and the empty dictionary is
  \<open>{}\<close>.
\<close>

definition indent :: "nat \<Rightarrow> string" where
  "indent lvl = CHR 0x0A # replicate (2 * lvl) CHR '' ''"

fun dumps :: "nat \<Rightarrow> json \<Rightarrow> string"
  and dumps_items :: "nat \<Rightarrow> (string \<times> json) list \<Rightarrow> string" where
  "dumps lvl (JInt n) = str_int n"
| "dumps lvl (JFloat x) = float_repr x"
| "dumps lvl (JStr s) = encode_str s"
| "dumps lvl (JDict kvs) =
     (if kvs = [] then ''{}''
      else ''{'' @ indent (Suc lvl) @ dumps_items (Suc lvl) kvs @ indent lvl @ ''}'')"
| "dumps_items lvl [] = []"
| "dumps_items lvl ((k, v) # kvs) =
     encode_str k @ '': '' @ dumps lvl v @
     (if kvs = [] then [] else '','' @ indent lvl @ dumps_items lvl kvs)"

definition json_dumps :: "json \<Rightarrow> string" where
  "json_dumps payload = dumps 0 payload"

text \<open>
  The decoder.  Between tokens it skips spaces, tabs, line feeds and carriage returns.
  A result is the value read and the rest of the text; \<open>None\<close> is a
  \<open>JSONDecodeError\<close>.  Arrays and the literals \<open>true\<close>, \<open>false\<close>, \<open>null\<close>, \<open>NaN\<close> and
  \<open>Infinity\<close> have no value of type \<open>json\<close> and are not read.
\<close>

definition json_ws :: "char \<Rightarrow> bool" where
  "json_ws c \<longleftrightarrow> c = CHR '' '' \<or> c = CHR 0x09 \<or> c = CHR 0x0A \<or> c = CHR 0x0D"

definition skip_ws :: "string \<Rightarrow> string" where
  "skip_ws s = dropWhile json_ws s"

text \<open>The rest of the text after the character \<open>c\<close>, when the text starts with it.\<close>

definition eat :: "char \<Rightarrow> string \<Rightarrow> string option" where
  "eat c s = (case s of [] \<Rightarrow> None | x # r \<Rightarrow> if x = c then Some r else None)"

definition hex_val :: "char \<Rightarrow> nat option" where
  "hex_val c =
     (let n = (of_char c :: nat)
      in if 48 \<le> n \<and> n \<le> 57 then Some (n - 48)
         else if 97 \<le> n \<and> n \<le> 102 then Some (n - 87)
         else if 65 \<le> n \<and> n \<le> 70 then Some (n - 55)
         else None)"

definition unescape :: "char \<Rightarrow> char option" where
  "unescape e =
     (if e = CHR 0x22 then Some CHR 0x22
      else if e = CHR 0x5C then Some CHR 0x5C
      else if e = CHR ''/'' then Some CHR ''/''
      else if e = CHR ''b'' then Some CHR 0x08
      else if e = CHR ''f'' then Some CHR 0x0C
      else if e = CHR ''n'' then Some CHR 0x0A
      else if e = CHR ''r'' then Some CHR 0x0D
      else if e = CHR ''t'' then Some CHR 0x09
      else None)"

text \<open>The code point of \<open>\<^verbatim>\<open>\u\<close>\<close> and four hex digits, when it is below 256.\<close>

definition hex4 :: "char \<Rightarrow> char \<Rightarrow> char \<Rightarrow> char \<Rightarrow> char option" where
  "hex4 a b c d =
     (case (hex_val a, hex_val b, hex_val c, hex_val d) of
        (Some p, Some q, Some r, Some s) \<Rightarrow>
          if p = 0 \<and> q = 0 then Some (char_of (16 * r + s)) else None
      | _ \<Rightarrow> None)"

text \<open>
  The string after its opening quote, up to the closing quote.  A control character
  that is not escaped is an error.
\<close>

fun scan_string :: "string \<Rightarrow> (string \<times> string) option" where
  "scan_string [] = None"
| "scan_string [c] = (if c = CHR 0x22 then Some ([], []) else None)"
| "scan_string (c # e # cs) =
     (if c = CHR 0x22 then Some ([], e # cs)
      else if c = CHR 0x5C then
        (if e = CHR ''u'' then
           (case cs of
              h1 # h2 # h3 # h4 # rest \<Rightarrow>
                (case hex4 h1 h2 h3 h4 of
                   None \<Rightarrow> None
                 | Some ch \<Rightarrow> map_option (\<lambda>(s, r). (ch # s, r)) (scan_string rest))
            | _ \<Rightarrow> None)
         else
           (case unescape e of
              None \<Rightarrow> None
            | Some ch \<Rightarrow> map_option (\<lambda>(s, r). (ch # s, r)) (scan_string cs)))
      else if (of_char c :: nat) < 32 then None
      else map_option (\<lambda>(s, r). (c # s, r)) (scan_string (e # cs)))"

text \<open>
  A number: an optional minus sign, the integer part (\<open>0\<close>, or digits that do not start
  with \<open>0\<close>), an optional fraction and an optional exponent.  Without fraction and
  exponent it is an integer; otherwise it is the float nearest to the decimal.
\<close>

definition scan_int_part :: "string \<Rightarrow> (string \<times> string) option" where
  "scan_int_part s =
     (case s of
        [] \<Rightarrow> None
      | c # cs \<Rightarrow>
          if c = CHR ''0'' then Some (''0'', cs)
          else if is_digit c then Some (takeWhile is_digit s, dropWhile is_digit s)
          else None)"

definition scan_frac :: "string \<Rightarrow> string \<times> string" where
  "scan_frac s =
     (case s of
        c # d # cs \<Rightarrow>
          if c = CHR ''.'' \<and> is_digit d
          then (takeWhile is_digit (d # cs), dropWhile is_digit (d # cs))
          else ([], s)
      | _ \<Rightarrow> ([], s))"

definition scan_exp :: "string \<Rightarrow> (int \<times> string) option" where
  "scan_exp s =
     (case s of
        [] \<Rightarrow> None
      | c # cs \<Rightarrow>
          if c = CHR ''e'' \<or> c = CHR ''E'' then
            (let neg = (cs \<noteq> [] \<and> hd cs = CHR ''-'');
                 ds = (if cs \<noteq> [] \<and> (hd cs = CHR ''-'' \<or> hd cs = CHR ''+'') then tl cs else cs)
             in if ds \<noteq> [] \<and> is_digit (hd ds)
                then Some ((if neg then - 1 else 1) * int (nat_of_digits (takeWhile is_digit ds)),
                           dropWhile is_digit ds)
                else None)
          else None)"

definition parse_number :: "string \<Rightarrow> (json \<times> string) option" where
  "parse_number s =
     (let neg = (s \<noteq> [] \<and> hd s = CHR ''-'');
          sign = (if neg then - 1 else 1 :: int)
      in case scan_int_part (if neg then tl s else s) of
           None \<Rightarrow> None
         | Some (ip, s1) \<Rightarrow>
             (case scan_frac s1 of (fp, s2) \<Rightarrow>
                (case scan_exp s2 of
                   None \<Rightarrow>
                     if fp = [] then Some (JInt (sign * int (nat_of_digits ip)), s2)
                     else Some (JFloat (fl (of_int (sign * int (nat_of_digits (ip @ fp)))
                                             / 10 ^ length fp)), s2)
                 | Some (ex, s3) \<Rightarrow>
                     Some (JFloat (fl (of_int (sign * int (nat_of_digits (ip @ fp)))
                                         * 10 powi (ex - int (length fp)))), s3))))"

definition parse_scalar :: "string \<Rightarrow> (json \<times> string) option" where
  "parse_scalar s =
     (case s of
        [] \<Rightarrow> None
      | c # cs \<Rightarrow>
          if c = CHR 0x22 then map_option (\<lambda>(t, r). (JStr t, r)) (scan_string cs)
          else if c = CHR ''-'' \<or> is_digit c then parse_number s
          else None)"

text \<open>
  The entries of a dictionary, from after the opening quote of a key to the closing
  brace.  A key read twice keeps its first place and takes the later value.
\<close>

partial_function (option) parse_members ::
  "(string \<times> json) list \<Rightarrow> string \<Rightarrow> (json \<times> string) option" where
  "parse_members acc s =
     Option.bind (scan_string s) (\<lambda>(k, s1).
     Option.bind (eat CHR '':'' (skip_ws s1)) (\<lambda>s2.
     Option.bind
       (case eat CHR ''{'' (skip_ws s2) of
          None \<Rightarrow> parse_scalar (skip_ws s2)
        | Some r \<Rightarrow>
            (case eat CHR ''}'' (skip_ws r) of
               Some r' \<Rightarrow> Some (JDict [], r')
             | None \<Rightarrow> Option.bind (eat CHR 0x22 (skip_ws r)) (\<lambda>r'. parse_members [] r')))
       (\<lambda>(v, s3).
          case eat CHR ''}'' (skip_ws s3) of
            Some s4 \<Rightarrow> Some (JDict (AList.update k v acc), s4)
          | None \<Rightarrow>
              Option.bind (eat CHR '','' (skip_ws s3)) (\<lambda>s4.
              Option.bind (eat CHR 0x22 (skip_ws s4)) (\<lambda>s5.
                parse_members (AList.update k v acc) s5)))))"

declare parse_members.simps [code]

definition parse_value :: "string \<Rightarrow> (json \<times> string) option" where
  "parse_value s =
     (case eat CHR ''{'' s of
        None \<Rightarrow> parse_scalar s
      | Some r \<Rightarrow>
          (case eat CHR ''}'' (skip_ws r) of
             Some r' \<Rightarrow> Some (JDict [], r')
           | None \<Rightarrow> Option.bind (eat CHR 0x22 (skip_ws r)) (\<lambda>r'. parse_members [] r')))"

text \<open>\<open>json.loads\<close>: one value, with nothing but white space before and after it.\<close>

definition json_loads :: "string \<Rightarrow> json option" where
  "json_loads s =
     Option.bind (parse_value (skip_ws s)) (\<lambda>(v, r). if skip_ws r = [] then Some v else None)"

text \<open>
  The files written and read as text: \<open>save_json\<close> writes the text of the payload, and
  \<open>load_json\<close> of a path that was written reads the text back and decodes it.  Both use
  the encoding UTF-8, which is not modelled.
\<close>

type_synonym file_store = "string \<Rightarrow> string option"

definition save_json :: "file_store \<Rightarrow> string \<Rightarrow> json \<Rightarrow> file_store" where
  "save_json fs path payload = fs(path \<mapsto> json_dumps payload)"

definition load_json :: "file_store \<Rightarrow> string \<Rightarrow> error + json" where
  "load_json fs path =
     (case fs path of
        None \<Rightarrow> Inl (OSError path)
      | Some t \<Rightarrow>
          (case json_loads t of None \<Rightarrow> Inl (JSONDecodeError path) | Some v \<Rightarrow> Inr v))"

text \<open>
  The values \<open>json.dumps\<close> writes and \<open>json.loads\<close> reads back as they are: the keys of
  every dictionary are distinct, as the keys of a Python dictionary are, and every
  float is in the range where its \<open>repr\<close> has no exponent.
\<close>

fun json_ok :: "json \<Rightarrow> bool" where
  "json_ok (JInt n) = True"
| "json_ok (JFloat x) = (repr_decimal x \<noteq> None)"
| "json_ok (JStr s) = True"
| "json_ok (JDict kvs) = (distinct (map fst kvs) \<and> list_all (\<lambda>kv. json_ok (snd kv)) kvs)"

text \<open>A text that cannot continue a number: it is empty or starts with a character
  that is no digit, no point and no exponent mark.\<close>

definition number_end :: "string \<Rightarrow> bool" where
  "number_end s \<longleftrightarrow>
     (case s of
        [] \<Rightarrow> True
      | c # cs \<Rightarrow> \<not> is_digit c \<and> c \<noteq> CHR ''.'' \<and> c \<noteq> CHR ''e'' \<and> c \<noteq> CHR ''E'')"

section \<open>Values decoded from JSON\<close>

text \<open>
  What \<open>json.loads\<close> can return, and so what \<open>RunConfig.from_dict\<close> can be given:
  \<open>None\<close>, a truth value, an integer, a float, a string, a list, or a dictionary with
  string keys.  \<open>PFloat\<close> holds a finite float other than the negative zero, as the
  real it denotes; the floats that are not real numbers, which the decoder produces
  for \<open>Infinity\<close>, \<open>-Infinity\<close>, \<open>NaN\<close>, \<open>-0.0\<close> and for a literal too large, are the
  \<open>special\<close> ones.
\<close>

datatype special = PosInfinity | NegInfinity | NotANumber | NegZero

datatype pyval =
    PNone
  | PBool bool
  | PInt int
  | PFloat real
  | PSpecial special
  | PStr string
  | PList "pyval list"
  | PDict "(string \<times> pyval) list"

text \<open>The value \<open>json.loads(json.dumps(j))\<close> for a value \<open>to_dict\<close> builds.\<close>

primrec py_of_json :: "json \<Rightarrow> pyval" where
  "py_of_json (JInt n) = PInt n"
| "py_of_json (JFloat x) = PFloat x"
| "py_of_json (JStr s) = PStr s"
| "py_of_json (JDict d) = PDict (map (map_prod id py_of_json) d)"

text \<open>
  A computation that returns a value, raises an error, or lies outside this model
  (\<open>None\<close>); \<open>andthen\<close> runs the second step when the first returned.
\<close>

type_synonym 'a result = "(error + 'a) option"

definition returns :: "'a \<Rightarrow> 'a result" where
  "returns x = Some (Inr x)"

definition raises :: "error \<Rightarrow> 'a result" where
  "raises e = Some (Inl e)"

definition andthen :: "'a result \<Rightarrow> ('a \<Rightarrow> 'b result) \<Rightarrow> 'b result" where
  "andthen m f = (case m of None \<Rightarrow> None | Some (Inl e) \<Rightarrow> Some (Inl e) | Some (Inr x) \<Rightarrow> f x)"

text \<open>The truth value of a Python value, and \<open>x or d\<close>.\<close>

fun py_truthy :: "pyval \<Rightarrow> bool" where
  "py_truthy PNone = False"
| "py_truthy (PBool b) = b"
| "py_truthy (PInt n) = (n \<noteq> 0)"
| "py_truthy (PFloat x) = (x \<noteq> 0)"
| "py_truthy (PSpecial s) = (s \<noteq> NegZero)"
| "py_truthy (PStr s) = (s \<noteq> [])"
| "py_truthy (PList xs) = (xs \<noteq> [])"
| "py_truthy (PDict kvs) = (kvs \<noteq> [])"

definition py_or :: "pyval \<Rightarrow> pyval \<Rightarrow> pyval" where
  "py_or x d = (if py_truthy x then x else d)"

text \<open>\<open>data.get(key, default)\<close> on a dictionary.\<close>

definition dict_get :: "(string \<times> pyval) list \<Rightarrow> string \<Rightarrow> pyval \<Rightarrow> pyval" where
  "dict_get kvs k d = (case map_of kvs k of None \<Rightarrow> d | Some v \<Rightarrow> v)"

text \<open>
  \<open>str(v)\<close>.  It is the string itself, the decimal digits of an integer, \<open>True\<close>,
  \<open>False\<close> or \<open>None\<close>, and the \<open>repr\<close> of a float.  Outside the model are the text of a
  list or a dictionary, of a float that Python writes with an exponent, and of an
  integer of more than 4300 digits, which interpreters since 3.11 refuse to convert.
\<close>

definition max_str_digits :: nat where
  "max_str_digits = 4300"

fun py_str :: "pyval \<Rightarrow> string option" where
  "py_str PNone = Some ''None''"
| "py_str (PBool b) = Some (if b then ''True'' else ''False'')"
| "py_str (PInt n) =
     (if length (str_nat (nat \<bar>n\<bar>)) \<le> max_str_digits then Some (str_int n) else None)"
| "py_str (PFloat x) =
     (case repr_decimal x of None \<Rightarrow> None | Some (k, m) \<Rightarrow> Some (decimal_str k m))"
| "py_str (PSpecial s) =
     Some (case s of PosInfinity \<Rightarrow> ''inf'' | NegInfinity \<Rightarrow> ''-inf''
           | NotANumber \<Rightarrow> ''nan'' | NegZero \<Rightarrow> ''-0.0'')"
| "py_str (PStr s) = Some s"
| "py_str (PList xs) = None"
| "py_str (PDict kvs) = None"

subsection \<open>Numbers from text\<close>

text \<open>
  \<open>int(s)\<close> and \<open>float(s)\<close> remove the whitespace at both ends of the text, which for
  them are the code points 9-13, 32, 133 and 160, and then an optional sign.
\<close>

definition num_space :: "char \<Rightarrow> bool" where
  "num_space c = (of_char c \<in> set [9, 10, 11, 12, 13, 32, 133, 160 :: nat])"

definition strip_num :: "string \<Rightarrow> string" where
  "strip_num s = rev (dropWhile num_space (rev (dropWhile num_space s)))"

text \<open>Whether the text has a minus sign, and the text after the sign.\<close>

fun split_sign :: "string \<Rightarrow> bool \<times> string" where
  "split_sign [] = (False, [])"
| "split_sign (c # cs) =
     (if c = CHR ''-'' then (True, cs) else if c = CHR ''+'' then (False, cs) else (False, c # cs))"

text \<open>Digits with single underscores between them: \<open>digit (["_"] digit)*\<close>.\<close>

fun digitpart :: "string \<Rightarrow> bool" where
  "digitpart [] = False"
| "digitpart [c] = is_digit c"
| "digitpart (c # d # cs) =
     (is_digit c \<and> (if d = CHR ''_'' then digitpart cs else digitpart (d # cs)))"

text \<open>The number the digits of a text denote, its underscores left out.\<close>

definition digits_value :: "string \<Rightarrow> nat" where
  "digits_value s = nat_of_digits (filter is_digit s)"

text \<open>
  \<open>int(s)\<close> for a text.  A text with more than 4300 digits is outside the model:
  interpreters since 3.11 refuse it, earlier ones convert it.
\<close>

definition int_of_text :: "string \<Rightarrow> int result" where
  "int_of_text s =
     (if max_str_digits < length (filter is_digit s) then None
      else let (neg, t) = split_sign (strip_num s)
           in if \<not> digitpart t then raises (IntLiteralError s)
              else returns (if neg then - int (digits_value t) else int (digits_value t)))"

text \<open>
  The number before the exponent of a float literal, \<open>[digitpart] "." digitpart\<close> or
  \<open>digitpart ["."]\<close>: the number its digits denote and how many of them follow the
  point.
\<close>

definition mantissa_of :: "string \<Rightarrow> (nat \<times> nat) option" where
  "mantissa_of s =
     (let ip = takeWhile (\<lambda>c. c \<noteq> CHR ''.'') s; r = dropWhile (\<lambda>c. c \<noteq> CHR ''.'') s
      in case r of
           [] \<Rightarrow> if digitpart ip then Some (digits_value ip, 0) else None
         | dot # fp \<Rightarrow>
             if (ip = [] \<and> fp = []) \<or> (ip \<noteq> [] \<and> \<not> digitpart ip) \<or> (fp \<noteq> [] \<and> \<not> digitpart fp)
             then None
             else Some (digits_value (ip @ fp), length (filter is_digit fp)))"

text \<open>The exponent of a float literal, the text after the \<open>e\<close>: \<open>["+" | "-"] digitpart\<close>.\<close>

definition exponent_of :: "string \<Rightarrow> int option" where
  "exponent_of s =
     (let (neg, t) = split_sign s
      in if digitpart t
         then Some (if neg then - int (digits_value t) else int (digits_value t))
         else None)"

text \<open>
  The sign and the exact magnitude of a decimal float literal, the text taken after
  its whitespace is removed.
\<close>

definition is_e :: "char \<Rightarrow> bool" where
  "is_e c \<longleftrightarrow> c = CHR ''e'' \<or> c = CHR ''E''"

definition decimal_of_text :: "string \<Rightarrow> (bool \<times> real) option" where
  "decimal_of_text s =
     (let (neg, t) = split_sign s;
          num = takeWhile (\<lambda>c. \<not> is_e c) t;
          ex = dropWhile (\<lambda>c. \<not> is_e c) t
      in case mantissa_of num of
           None \<Rightarrow> None
         | Some (d, f) \<Rightarrow>
             (case (if ex = [] then Some 0 else exponent_of (tl ex)) of
                None \<Rightarrow> None
              | Some e \<Rightarrow> Some (neg, of_nat d * 10 powi (e - int f))))"

definition ascii_lower :: "char \<Rightarrow> char" where
  "ascii_lower c =
     (if 65 \<le> (of_char c :: nat) \<and> (of_char c :: nat) \<le> 90
      then char_of ((of_char c :: nat) + 32) else c)"

text \<open>A magnitude that is too large for a float: the nearest one would be \<open>2 ^ 1024\<close>.\<close>

definition overflows :: "real \<Rightarrow> bool" where
  "overflows r \<longleftrightarrow> 2 ^ 1024 \<le> \<bar>r\<bar>"

text \<open>
  \<open>float(s)\<close> for a text: the float nearest to the decimal the text denotes.  Outside
  the model are the texts whose float is not a real number: \<open>inf\<close>, \<open>infinity\<close> and
  \<open>nan\<close> in either case, a decimal that rounds to \<open>2 ^ 1024\<close> or more, which gives
  infinity, and a negative one that rounds to zero, which gives \<open>-0.0\<close>.
\<close>

definition float_of_text :: "string \<Rightarrow> real result" where
  "float_of_text s =
     (let t = strip_num s
      in if map ascii_lower (snd (split_sign t)) \<in> set [''inf'', ''infinity'', ''nan''] then None
         else case decimal_of_text t of
                None \<Rightarrow> raises (FloatLiteralError s)
              | Some (neg, v) \<Rightarrow>
                  let r = fl v
                  in if overflows r \<or> (neg \<and> r = 0) then None
                     else returns (if neg then - r else r))"

text \<open>\<open>int(v)\<close>: a float is cut towards zero.\<close>

fun py_int :: "pyval \<Rightarrow> int result" where
  "py_int PNone = raises TypeError"
| "py_int (PBool b) = returns (if b then 1 else 0)"
| "py_int (PInt n) = returns n"
| "py_int (PFloat x) = returns (if 0 \<le> x then \<lfloor>x\<rfloor> else \<lceil>x\<rceil>)"
| "py_int (PSpecial s) =
     (case s of
        PosInfinity \<Rightarrow> raises OverflowError
      | NegInfinity \<Rightarrow> raises OverflowError
      | NotANumber \<Rightarrow> raises (ValueError ''cannot convert float NaN to integer'')
      | NegZero \<Rightarrow> returns 0)"
| "py_int (PStr s) = int_of_text s"
| "py_int (PList xs) = raises TypeError"
| "py_int (PDict kvs) = raises TypeError"

text \<open>
  \<open>float(v)\<close>: an integer is rounded to the nearest float, and is refused when that
  is \<open>2 ^ 1024\<close> or more.  A special float is returned as it is, outside the model.
\<close>

fun py_float :: "pyval \<Rightarrow> real result" where
  "py_float PNone = raises TypeError"
| "py_float (PBool b) = returns (if b then 1 else 0)"
| "py_float (PInt n) =
     (if overflows (float_of_int n) then raises OverflowError else returns (float_of_int n))"
| "py_float (PFloat x) = returns x"
| "py_float (PSpecial s) = None"
| "py_float (PStr s) = float_of_text s"
| "py_float (PList xs) = raises TypeError"
| "py_float (PDict kvs) = raises TypeError"

section \<open>Run configuration\<close>

text \<open>\<open>s.encode("utf-8")\<close> for code points below 256: one byte below 128, else two.\<close>

definition encode_utf8 :: "string \<Rightarrow> string" where
  "encode_utf8 s =
     concat (map (\<lambda>c. if (of_char c :: nat) < 128 then [c]
                       else [char_of (192 + (of_char c :: nat) div 64),
                             char_of (128 + (of_char c :: nat) mod 64)]) s)"

text \<open>
  \<open>s.upper()\<close>.  Below 256 the lower-case letters are \<open>a\<close>-\<open>z\<close> and the code points
  224-254 except 247, whose capitals lie 32 below; the sharp s, 223, becomes \<open>SS\<close>.  The
  capitals of the micro sign, 181, and of the y with diaeresis, 255, lie above 255,
  outside the model.
\<close>

definition upper_char :: "char \<Rightarrow> string option" where
  "upper_char c =
     (let n = of_char c :: nat
      in if (97 \<le> n \<and> n \<le> 122) \<or> (224 \<le> n \<and> n \<le> 254 \<and> n \<noteq> 247) then Some [char_of (n - 32)]
         else if n = 223 then Some ''SS''
         else if n = 181 \<or> n = 255 then None
         else Some [c])"

fun upper :: "string \<Rightarrow> string option" where
  "upper [] = Some []"
| "upper (c # cs) =
     (case upper_char c of
        None \<Rightarrow> None
      | Some u \<Rightarrow> (case upper cs of None \<Rightarrow> None | Some us \<Rightarrow> Some (u @ us)))"

record RunConfig =
  url :: string
  "method" :: string
  rps :: int
  duration_s :: int
  timeout_s :: real
  headers :: headers
  body :: "string option"
  headers_text :: string
  body_text :: string

definition from_fields ::
  "string \<Rightarrow> string \<Rightarrow> int \<Rightarrow> int \<Rightarrow> real \<Rightarrow> string \<Rightarrow> string \<Rightarrow> error + RunConfig" where
  "from_fields url' method' rps' duration_s' timeout_s' headers_text' body_text' =
     (case parse_header_lines headers_text' of
        Inl e \<Rightarrow> Inl e
      | Inr hs \<Rightarrow>
          Inr \<lparr>url = url', method = method', rps = rps', duration_s = duration_s',
               timeout_s = timeout_s', headers = hs,
               body = (if body_text' \<noteq> [] then Some (encode_utf8 body_text') else None),
               headers_text = headers_text', body_text = body_text'\<rparr>)"

definition config_to_dict :: "RunConfig \<Rightarrow> json" where
  "config_to_dict self =
     JDict
       [(''url'', JStr (url self)),
        (''method'', JStr (method self)),
        (''rps'', JInt (rps self)),
        (''duration_s'', JInt (duration_s self)),
        (''timeout_s'', JFloat (timeout_s self)),
        (''headers'', JStr (headers_text self)),
        (''body'', JStr (body_text self))]"

text \<open>\<open>s or d\<close> for a string.\<close>

definition str_or :: "string \<Rightarrow> string \<Rightarrow> string" where
  "str_or s d = (if s \<noteq> [] then s else d)"

text \<open>\<open>str(v)\<close> and \<open>s.upper()\<close> as steps of a computation.\<close>

definition str_of :: "pyval \<Rightarrow> string result" where
  "str_of v = map_option Inr (py_str v)"

definition upper_of :: "string \<Rightarrow> string result" where
  "upper_of s = map_option Inr (upper s)"

text \<open>
  \<open>RunConfig.from_dict\<close>, on any decoded value.  \<open>data["url"]\<close> raises \<open>TypeError\<close> on a
  value that is not a dictionary and \<open>KeyError\<close> on a dictionary without the key; the
  statements run in the order of the source, so the first one that raises decides.
\<close>

definition from_dict :: "pyval \<Rightarrow> RunConfig result" where
  "from_dict data =
     (case data of
        PDict kvs \<Rightarrow>
          (case map_of kvs ''url'' of
             None \<Rightarrow> raises (KeyError ''url'')
           | Some v \<Rightarrow>
               andthen (str_of v) (\<lambda>url_txt.
               andthen (str_of (dict_get kvs ''method'' (PStr ''GET''))) (\<lambda>method_txt.
               andthen (upper_of (strip method_txt)) (\<lambda>method_up.
               andthen (py_int (dict_get kvs ''rps'' (PInt 1))) (\<lambda>rps'.
               andthen (py_int (dict_get kvs ''duration_s'' (PInt 1))) (\<lambda>duration_s'.
               andthen (py_float (dict_get kvs ''timeout_s'' (PInt 10))) (\<lambda>timeout_s'.
               andthen (str_of (py_or (dict_get kvs ''headers'' (PStr [])) (PStr []))) (\<lambda>headers_txt.
               andthen (str_of (py_or (dict_get kvs ''body'' (PStr [])) (PStr []))) (\<lambda>body_txt.
                 Some (from_fields (strip url_txt) (str_or method_up ''GET'') rps' duration_s'
                         timeout_s' headers_txt body_txt))))))))))
      | _ \<Rightarrow> raises TypeError)"

text \<open>
  The errors of a conversion with \<open>int\<close> or \<open>float\<close>, and of a subscript on a value that
  is not a dictionary; and the errors of \<open>parse_header_lines\<close>.
\<close>

fun conversion_error :: "error \<Rightarrow> bool" where
  "conversion_error TypeError = True"
| "conversion_error OverflowError = True"
| "conversion_error (IntLiteralError s) = True"
| "conversion_error (FloatLiteralError s) = True"
| "conversion_error (ValueError msg) = (msg = ''cannot convert float NaN to integer'')"
| "conversion_error e = False"

fun header_error :: "error \<Rightarrow> bool" where
  "header_error (HeaderFormatError line) = True"
| "header_error (HeaderNameEmpty line) = True"
| "header_error e = False"



definition preset_bad_rate :: json where
  "preset_bad_rate = JDict [(''url'', JStr ''http://h/''), (''rps'', JStr ''abc'')]"

section \<open>Headless mode\<close>

text \<open>
  The parsed command line, \<open>args\<close>.  An option that was not given is \<open>None\<close>; the
  parser's defaults make \<open>method\<close>, \<open>rps\<close>, \<open>duration\<close> and \<open>timeout\<close> always present, and
  its conversions make \<open>rps\<close> and \<open>duration\<close> integers and \<open>timeout\<close> a float.
\<close>

record Namespace =
  args_url :: "string option"
  args_method :: string
  args_rps :: int
  args_duration :: int
  args_timeout :: real
  args_headers :: "string option"
  args_headers_path :: "string option"
  args_body :: "string option"
  args_body_path :: "string option"
  args_preset :: "string option"
  args_log_file :: "string option"
  args_summary_json :: "string option"
  args_print_log :: bool
  args_headless :: bool

text \<open>The truth value of an optional string: \<open>None\<close> and the empty string are false.\<close>

definition truthy :: "string option \<Rightarrow> bool" where
  "truthy v = (case v of None \<Rightarrow> False | Some s \<Rightarrow> s \<noteq> [])"

text \<open>
  The files of the program.  A path names no file that can be opened (\<open>None\<close>), a file
  that is not UTF-8 text, or a file with its text and the value \<open>json.loads\<close> makes of
  that text, \<open>None\<close> when the text is not JSON.  \<open>writable\<close> tells whether a text can be
  written at a path, its parent directories made.
\<close>

datatype file_data = NotUTF8 | Content string "pyval option"

record file_env =
  files :: "string \<Rightarrow> file_data option"
  writable :: "string \<Rightarrow> bool"

text \<open>
  \<open>Path(path).read_text(encoding="utf-8")\<close>.  A path with a null character is refused
  with a \<open>ValueError\<close> before the file system is asked.
\<close>

definition read_text :: "file_env \<Rightarrow> string \<Rightarrow> error + string" where
  "read_text fs path =
     (if CHR 0x00 \<in> set path then Inl (ValueError ''embedded null byte'')
      else case files fs path of
             None \<Rightarrow> Inl (OSError path)
           | Some NotUTF8 \<Rightarrow> Inl (UnicodeDecodeError path)
           | Some (Content t j) \<Rightarrow> Inr t)"

text \<open>\<open>load_json(Path(path))\<close>: \<open>json.loads\<close> of the text read.\<close>

definition load_preset :: "file_env \<Rightarrow> string \<Rightarrow> error + pyval" where
  "load_preset fs path =
     (if CHR 0x00 \<in> set path then Inl (ValueError ''embedded null byte'')
      else case files fs path of
             None \<Rightarrow> Inl (OSError path)
           | Some NotUTF8 \<Rightarrow> Inl (UnicodeDecodeError path)
           | Some (Content t None) \<Rightarrow> Inl (JSONDecodeError path)
           | Some (Content t (Some data)) \<Rightarrow> Inr data)"

text \<open>\<open>sub in s\<close> for two strings.\<close>

fun contains :: "string \<Rightarrow> string \<Rightarrow> bool" where
  "contains sub [] = (sub = [])"
| "contains sub (c # cs) = (take (length sub) (c # cs) = sub \<or> contains sub cs)"

text \<open>
  \<open>data["config"] if "config" in data else data\<close>.  The test \<open>in\<close> looks for a key of a
  dictionary, an element of a list and a part of a string, and raises \<open>TypeError\<close> on
  any other value; \<open>data["config"]\<close> raises \<open>TypeError\<close> on a list and on a string.
\<close>

fun preset_config :: "pyval \<Rightarrow> error + pyval" where
  "preset_config (PDict kvs) =
     (case map_of kvs ''config'' of None \<Rightarrow> Inr (PDict kvs) | Some c \<Rightarrow> Inr c)"
| "preset_config (PList xs) =
     (if PStr ''config'' \<in> set xs then Inl TypeError else Inr (PList xs))"
| "preset_config (PStr s) =
     (if contains ''config'' s then Inl TypeError else Inr (PStr s))"
| "preset_config v = Inl TypeError"

text \<open>\<open>text\<close> when the option is given, else the file's text when a path is given, else empty.\<close>

definition text_or_file :: "file_env \<Rightarrow> string option \<Rightarrow> string option \<Rightarrow> error + string" where
  "text_or_file fs txt path =
     (if truthy txt then Inr (the txt)
      else if truthy path then read_text fs (the path)
      else Inr [])"

text \<open>
  The last step of the configuration: the URL must not be empty, and the run
  configuration is built from the stripped fields.  \<open>int(rps)\<close>, \<open>int(duration)\<close> and
  \<open>float(timeout)\<close> change nothing, the values being integers and a float already.
\<close>

definition build_config ::
  "string option \<Rightarrow> string \<Rightarrow> int \<Rightarrow> int \<Rightarrow> real \<Rightarrow> string \<Rightarrow> string \<Rightarrow> RunConfig result" where
  "build_config url' method' rps' duration' timeout' headers_text' body_text' =
     (if \<not> truthy url'
      then raises (ValueError ''URL is required in headless mode (use --url or preset with URL)'')
      else andthen (upper_of (strip method')) (\<lambda>method_up.
             Some (from_fields (strip (the url')) (str_or method_up ''GET'')
                     rps' duration' timeout' headers_text' body_text')))"

text \<open>
  The statements of \<open>run_headless\<close> up to the construction of \<open>config\<close>.  The two checks
  of the option pairs come first, before any file is read.
\<close>

definition headless_config :: "file_env \<Rightarrow> Namespace \<Rightarrow> RunConfig result" where
  "headless_config fs args =
     (if truthy (args_headers args) \<and> truthy (args_headers_path args)
      then raises (ValueError ''--headers and --headers-path cannot be used together'')
      else if truthy (args_body args) \<and> truthy (args_body_path args)
      then raises (ValueError ''--body and --body-path cannot be used together'')
      else
        andthen (Some (text_or_file fs (args_headers args) (args_headers_path args)))
          (\<lambda>headers_text'.
        andthen (Some (text_or_file fs (args_body args) (args_body_path args)))
          (\<lambda>body_text'.
        if truthy (args_preset args) then
          andthen (Some (load_preset fs (the (args_preset args)))) (\<lambda>data.
          andthen (Some (preset_config data)) (\<lambda>chosen.
          andthen (from_dict chosen) (\<lambda>preset.
            build_config
              (if truthy (args_url args) then args_url args else Some (url preset))
              (str_or (args_method args) (method preset))
              (if args_rps args \<noteq> 0 then args_rps args else rps preset)
              (if args_duration args \<noteq> 0 then args_duration args else duration_s preset)
              (if args_timeout args \<noteq> 0 then args_timeout args else timeout_s preset)
              (if headers_text' = [] then headers_text preset else headers_text')
              (if body_text' = [] then body_text preset else body_text'))))
        else
          andthen (upper_of (str_or (args_method args) ''GET'')) (\<lambda>method_up.
            build_config (args_url args) method_up
              (args_rps args) (args_duration args) (args_timeout args)
              headers_text' body_text'))))"

text \<open>
  \<open>Path(path).write_text(...)\<close>, and \<open>save_json\<close>, which makes the parent directories
  first, as far as they can fail.
\<close>

definition write_text :: "file_env \<Rightarrow> string \<Rightarrow> error + unit" where
  "write_text fs path =
     (if CHR 0x00 \<in> set path then Inl (ValueError ''embedded null byte'')
      else if writable fs path then Inr ()
      else Inl (OSError path))"

text \<open>
  What a completed headless run leaves: the configuration, the payload printed at the
  end, and the log and the summary written to the files asked for.
\<close>

record headless_output =
  out_config :: RunConfig
  out_payload :: json
  out_log_file :: "(string \<times> log_line list) option"
  out_summary_file :: "(string \<times> json) option"

text \<open>
  How \<open>run_headless\<close> ends: with an error raised before the run starts, with an
  exception that leaves \<open>run_probe\<close>, with an error raised when the log or the summary
  is written after the run (the log file that was written before, if any, is kept), or
  normally.
\<close>

datatype headless_exit =
    Failed error
  | Crashed raised
  | WriteFailed error "(string \<times> log_line list) option"
  | Finished headless_output

text \<open>
  \<open>run_headless\<close>.  The result is \<open>None\<close> when the observations of the probe's
  environment are too short for the run, or a step lies outside the model.
\<close>

definition run_headless :: "file_env \<Rightarrow> probe_env \<Rightarrow> Namespace \<Rightarrow> headless_exit option" where
  "run_headless fs env args =
     (case headless_config fs args of
        None \<Rightarrow> None
      | Some (Inl e) \<Rightarrow> Some (Failed e)
      | Some (Inr config) \<Rightarrow>
          case run_probe (url config) (method config) (rps config) (duration_s config)
                 (timeout_s config) (headers config) (body config) env of
            None \<Rightarrow> None
          | Some (Inl e) \<Rightarrow> Some (Crashed e)
          | Some (Inr (summary, s)) \<Rightarrow>
              let payload = JDict [(''config'', config_to_dict config),
                                   (''summary'', to_dict summary)];
                  log_file = (if truthy (args_log_file args)
                              then Some (the (args_log_file args), log_queue s) else None);
                  summary_file = (if truthy (args_summary_json args)
                                  then Some (the (args_summary_json args), payload) else None)
              in case (if truthy (args_log_file args)
                       then write_text fs (the (args_log_file args)) else Inr ()) of
                   Inl e \<Rightarrow> Some (WriteFailed e None)
                 | Inr u \<Rightarrow>
                     case (if truthy (args_summary_json args)
                           then write_text fs (the (args_summary_json args)) else Inr ()) of
                       Inl e \<Rightarrow> Some (WriteFailed e log_file)
                     | Inr u' \<Rightarrow>
                         Some (Finished
                           \<lparr>out_config = config, out_payload = payload,
                            out_log_file = log_file, out_summary_file = summary_file\<rparr>))"

text \<open>An example command line: only \<open>--url\<close> is given, the rest are the parser's defaults.\<close>

definition args_example :: Namespace where
  "args_example =
     \<lparr>args_url = Some ''http://h/'', args_method = ''GET'', args_rps = 5, args_duration = 30,
      args_timeout = 10, args_headers = None, args_headers_path = None, args_body = None,
      args_body_path = None, args_preset = None, args_log_file = None,
      args_summary_json = None, args_print_log = False, args_headless = True\<rparr>"

text \<open>
  An example file system: \<open>h.txt\<close> holds one header line, which is not JSON, and
  \<open>p.json\<close> holds the preset whose rate is not a number; every path can be written.  And
  a command line that gives \<open>--headers ""\<close> together with \<open>--headers-path h.txt\<close>, for
  two requests a second during one second.
\<close>

definition files_example :: file_env where
  "files_example =
     \<lparr>files = (\<lambda>p. if p = ''h.txt'' then Some (Content ''A: 1'' None)
                   else if p = ''p.json''
                   then Some (Content (json_dumps preset_bad_rate)
                                (Some (py_of_json preset_bad_rate)))
                   else None),
      writable = (\<lambda>p. True)\<rparr>"

definition args_empty_headers :: Namespace where
  "args_empty_headers =
     args_example\<lparr>args_rps := 2, args_duration := 1, args_headers := Some [],
                  args_headers_path := Some ''h.txt''\<rparr>"

section \<open>Properties of header parsing\<close>

lemma split_once_decomp:
  assumes "sep \<in> set s"
  shows "s = fst (split_once sep s) @ sep # snd (split_once sep s)"
    and "sep \<notin> set (fst (split_once sep s))"
proof -
  from assms have "dropWhile (\<lambda>c. c \<noteq> sep) s \<noteq> []" by (simp add: dropWhile_eq_Nil_conv) 
  then obtain d ds where d: "dropWhile (\<lambda>c. c \<noteq> sep) s = d # ds" by (cases "dropWhile (\<lambda>c. c \<noteq> sep) s") auto
  then have "d = sep" using hd_dropWhile[of "\<lambda>c. c \<noteq> sep" s] by auto
  with d have "takeWhile (\<lambda>c. c \<noteq> sep) s @ sep # ds = s"
    using takeWhile_dropWhile_id[of "\<lambda>c. c \<noteq> sep" s] by simp
  with d show "s = fst (split_once sep s) @ sep # snd (split_once sep s)"
    by (simp add: split_once_def)
  show "sep \<notin> set (fst (split_once sep s))"
    using set_takeWhileD[of sep "\<lambda>c. c \<noteq> sep" s] by (auto simp: split_once_def)
qed

lemma split_once_unique:
  assumes "s = n @ sep # v" and "sep \<notin> set n"
  shows "split_once sep s = (n, v)"
proof -
  from assms(2) have ne: "\<And>x. x \<in> set n \<Longrightarrow> x \<noteq> sep" by auto
  have "takeWhile (\<lambda>c. c \<noteq> sep) (n @ sep # v) = n"
    using ne by (simp add: takeWhile_append2)
  moreover have "dropWhile (\<lambda>c. c \<noteq> sep) (n @ sep # v) = sep # v"
    using ne by (simp add: dropWhile_append2)
  ultimately show ?thesis using assms(1) by (simp add: split_once_def)
qed

lemma header_of_iff:
  "header_of line name val \<longleftrightarrow>
     CHR '':'' \<in> set (strip line) \<and>
     name = strip (fst (split_once CHR '':'' (strip line))) \<and>
     val = strip (snd (split_once CHR '':'' (strip line)))"
proof
  assume "header_of line name val"
  then obtain n v where nv: "strip line = n @ CHR '':'' # v" "CHR '':'' \<notin> set n"
      "name = strip n" "val = strip v"
    by (auto simp: header_of_def)
  from split_once_unique[OF nv(1,2)] nv
  show "CHR '':'' \<in> set (strip line) \<and>
     name = strip (fst (split_once CHR '':'' (strip line))) \<and>
     val = strip (snd (split_once CHR '':'' (strip line)))"
    by simp
next
  assume a: "CHR '':'' \<in> set (strip line) \<and>
     name = strip (fst (split_once CHR '':'' (strip line))) \<and>
     val = strip (snd (split_once CHR '':'' (strip line)))"
  then show "header_of line name val"
    unfolding header_of_def using split_once_decomp[of "CHR '':''" "strip line"] by blast
qed

lemma last_header_None_iff:
  "last_header ls k = None \<longleftrightarrow> (\<forall>l \<in> set ls. \<forall>v. \<not> header_of l k v)"
  by (induction ls) (auto simp: header_of_iff split: option.splits)

lemma last_header_Some_iff:
  "last_header ls k = Some v \<longleftrightarrow>
     (\<exists>pre l post. ls = pre @ l # post \<and> header_of l k v \<and>
        (\<forall>l' \<in> set post. \<forall>v'. \<not> header_of l' k v'))"
proof (induction ls arbitrary: v)
  case Nil
  then show ?case by simp
next
  case (Cons a ls)
  show ?case
  proof (cases "last_header ls k")
    case None
    then have no: "\<And>l v. l \<in> set ls \<Longrightarrow> \<not> header_of l k v"
      by (simp add: last_header_None_iff)
    show ?thesis
    proof
      assume "last_header (a # ls) k = Some v"
      with None have "header_of a k v"
        by (auto simp: header_of_iff split: if_splits)
      with no have "a # ls = [] @ a # ls \<and> header_of a k v \<and>
        (\<forall>l' \<in> set ls. \<forall>v'. \<not> header_of l' k v')" by simp
      then show "\<exists>pre l post. a # ls = pre @ l # post \<and> header_of l k v \<and>
        (\<forall>l' \<in> set post. \<forall>v'. \<not> header_of l' k v')" by blast
    next
      assume "\<exists>pre l post. a # ls = pre @ l # post \<and> header_of l k v \<and>
        (\<forall>l' \<in> set post. \<forall>v'. \<not> header_of l' k v')"
      then obtain pre l post where d: "a # ls = pre @ l # post" "header_of l k v"
        by blast
      have "pre = []"
      proof (cases pre)
        case Nil then show ?thesis .
      next
        case c: (Cons p ps)
        with d(1) have "l \<in> set ls" by auto
        with no d(2) show ?thesis by blast
      qed
      with d have "header_of a k v" by simp
      with None show "last_header (a # ls) k = Some v"
        by (auto simp: header_of_iff)
    qed
  next
    case (Some w)
    then obtain pre l post where d: "ls = pre @ l # post" "header_of l k w"
        "\<forall>l' \<in> set post. \<forall>v'. \<not> header_of l' k v'"
      using Cons.IH[of w] by blast
    show ?thesis
    proof
      assume "last_header (a # ls) k = Some v"
      with Some have "v = w" by simp
      with d have "a # ls = (a # pre) @ l # post \<and> header_of l k v \<and>
        (\<forall>l' \<in> set post. \<forall>v'. \<not> header_of l' k v')" by simp
      then show "\<exists>pre l post. a # ls = pre @ l # post \<and> header_of l k v \<and>
        (\<forall>l' \<in> set post. \<forall>v'. \<not> header_of l' k v')" by blast
    next
      assume "\<exists>pre l post. a # ls = pre @ l # post \<and> header_of l k v \<and>
        (\<forall>l' \<in> set post. \<forall>v'. \<not> header_of l' k v')"
      then obtain pre' l' post' where e: "a # ls = pre' @ l' # post'" "header_of l' k v"
        "\<forall>x \<in> set post'. \<forall>v'. \<not> header_of x k v'"
        by blast
      have "last_header ls k = Some v"
      proof (cases pre')
        case Nil
        with e(1) have "post' = ls" by simp
        with e(3) d(1,2) show ?thesis by auto
      next
        case c: (Cons p ps)
        with e(1) have "ls = ps @ l' # post'" by simp
        with e(2,3) show ?thesis using Cons.IH[of v] by blast
      qed
      with Some show "last_header (a # ls) k = Some v" by simp
    qed
  qed
qed

lemma parse_header_loop_map_of:
  "parse_header_loop h0 ls = Inr h \<Longrightarrow>
   map_of h k = (case last_header ls k of Some v \<Rightarrow> Some v | None \<Rightarrow> map_of h0 k)"
proof (induction ls arbitrary: h0)
  case Nil
  then show ?case by simp
next
  case (Cons l ls)
  then show ?case
    by (auto simp: Let_def update_conv' split: if_splits prod.splits option.splits)
qed


lemma parse_header_loop_distinct:
  "parse_header_loop h0 ls = Inr h \<Longrightarrow> distinct (map fst h0) \<Longrightarrow> distinct (map fst h)"
proof (induction ls arbitrary: h0)
  case Nil
  then show ?case by simp
next
  case (Cons l ls)
  then show ?case
    by (auto simp: Let_def distinct_update split: if_splits prod.splits)
qed

lemma parse_header_loop_skip_blank:
  "parse_header_loop h0 (filter (\<lambda>l. strip l \<noteq> []) ls) = parse_header_loop h0 ls"
  by (induction ls arbitrary: h0) (auto simp: Let_def split: prod.splits)

lemma malformed_iff:
  "malformed l \<longleftrightarrow> strip l \<noteq> [] \<and>
     (CHR '':'' \<notin> set (strip l) \<or> strip (fst (split_once CHR '':'' (strip l))) = [])"
  by (simp add: malformed_def split_once_def)

lemma parse_header_loop_Inl:
  "parse_header_loop h0 ls = Inl e \<longleftrightarrow>
     (\<exists>pre line post. ls = pre @ line # post \<and> (\<forall>l \<in> set pre. \<not> malformed l) \<and> malformed line \<and>
        e = (if CHR '':'' \<notin> set (strip line) then HeaderFormatError line else HeaderNameEmpty line))"
proof (induction ls arbitrary: h0)
  case Nil
  then show ?case by simp
next
  case (Cons l ls)
  show ?case
  proof (cases "malformed l")
    case True
    then have "parse_header_loop h0 (l # ls) =
        Inl (if CHR '':'' \<notin> set (strip l) then HeaderFormatError l else HeaderNameEmpty l)"
      by (auto simp: malformed_iff Let_def split: prod.splits)
    moreover have "(\<exists>pre line post. l # ls = pre @ line # post \<and> (\<forall>x \<in> set pre. \<not> malformed x) \<and> malformed line \<and>
        e = (if CHR '':'' \<notin> set (strip line) then HeaderFormatError line else HeaderNameEmpty line))
       \<longleftrightarrow> e = (if CHR '':'' \<notin> set (strip l) then HeaderFormatError l else HeaderNameEmpty l)"
    proof
      assume "\<exists>pre line post. l # ls = pre @ line # post \<and> (\<forall>x \<in> set pre. \<not> malformed x) \<and> malformed line \<and>
        e = (if CHR '':'' \<notin> set (strip line) then HeaderFormatError line else HeaderNameEmpty line)"
      then obtain pre line post where d: "l # ls = pre @ line # post" "\<forall>x \<in> set pre. \<not> malformed x"
        "e = (if CHR '':'' \<notin> set (strip line) then HeaderFormatError line else HeaderNameEmpty line)"
        by blast
      from d(1,2) True have "pre = []" by (cases pre) auto
      with d(1,3) show "e = (if CHR '':'' \<notin> set (strip l) then HeaderFormatError l else HeaderNameEmpty l)"
        by simp
    next
      assume "e = (if CHR '':'' \<notin> set (strip l) then HeaderFormatError l else HeaderNameEmpty l)"
      with True have "l # ls = [] @ l # ls \<and> (\<forall>x \<in> set []. \<not> malformed x) \<and> malformed l \<and>
        e = (if CHR '':'' \<notin> set (strip l) then HeaderFormatError l else HeaderNameEmpty l)"
        by simp
      then show "\<exists>pre line post. l # ls = pre @ line # post \<and> (\<forall>x \<in> set pre. \<not> malformed x) \<and> malformed line \<and>
        e = (if CHR '':'' \<notin> set (strip line) then HeaderFormatError line else HeaderNameEmpty line)"
        by blast
    qed
    ultimately show ?thesis by auto
  next
    case False
    have "\<exists>h1. parse_header_loop h0 (l # ls) = parse_header_loop h1 ls"
    proof (cases "strip l = []")
      case True
      then show ?thesis by (intro exI[of _ h0]) simp
    next
      case nonblank: False
      with False have "CHR '':'' \<in> set (strip l)"
        and "strip (fst (split_once CHR '':'' (strip l))) \<noteq> []"
        by (auto simp: malformed_iff)
      with nonblank show ?thesis
        by (intro exI[of _ "AList.update (strip (fst (split_once CHR '':'' (strip l))))
              (strip (snd (split_once CHR '':'' (strip l)))) h0"])
           (simp add: Let_def case_prod_beta)
    qed
    then obtain h1 where step: "parse_header_loop h0 (l # ls) = parse_header_loop h1 ls"
      by blast
    have "(\<exists>pre line post. l # ls = pre @ line # post \<and> (\<forall>x \<in> set pre. \<not> malformed x) \<and> malformed line \<and>
        e = (if CHR '':'' \<notin> set (strip line) then HeaderFormatError line else HeaderNameEmpty line))
       \<longleftrightarrow> (\<exists>pre line post. ls = pre @ line # post \<and> (\<forall>x \<in> set pre. \<not> malformed x) \<and> malformed line \<and>
        e = (if CHR '':'' \<notin> set (strip line) then HeaderFormatError line else HeaderNameEmpty line))"
      (is "?L \<longleftrightarrow> ?R")
    proof
      assume ?L
      then obtain pre line post where d: "l # ls = pre @ line # post" "\<forall>x \<in> set pre. \<not> malformed x"
        "malformed line"
        "e = (if CHR '':'' \<notin> set (strip line) then HeaderFormatError line else HeaderNameEmpty line)"
        by blast
      from d(1,3) False obtain ps where ps: "pre = l # ps" by (cases pre) auto
      with d have "ls = ps @ line # post \<and> (\<forall>x \<in> set ps. \<not> malformed x) \<and> malformed line \<and>
        e = (if CHR '':'' \<notin> set (strip line) then HeaderFormatError line else HeaderNameEmpty line)"
        by simp
      then show ?R by blast
    next
      assume ?R
      then obtain pre line post where d: "ls = pre @ line # post" "\<forall>x \<in> set pre. \<not> malformed x"
        "malformed line"
        "e = (if CHR '':'' \<notin> set (strip line) then HeaderFormatError line else HeaderNameEmpty line)"
        by blast
      with False have "l # ls = (l # pre) @ line # post \<and> (\<forall>x \<in> set (l # pre). \<not> malformed x) \<and> malformed line \<and>
        e = (if CHR '':'' \<notin> set (strip line) then HeaderFormatError line else HeaderNameEmpty line)"
        by simp
      then show ?L by blast
    qed
    with step Cons.IH[of h1] show ?thesis by simp
  qed
qed

text \<open>
  Claim C5.  \<open>parse_header_lines\<close> maps the three lines \<open>A: 1\<close>, \<open>A: 2\<close> and \<open>B:3\<close> to the dictionary
  \<open>{"A": "2", "B": "3"}\<close>.  In general, when it returns a dictionary, a name maps to
  a value exactly when some line, trimmed and split at its first colon, gives that
  trimmed name and trimmed value and no later line gives the same name; the keys are
  distinct; and the blank lines of the input do not change the result.
\<close>

theorem parse_header_lines_mapping:
  "parse_header_lines (''A: 1'' @ [CHR 0x0A] @ ''A: 2'' @ [CHR 0x0A] @ ''B:3'')
     = Inr [(''A'', ''2''), (''B'', ''3'')]
   \<and> (parse_header_lines raw = Inr h \<longrightarrow>
        distinct (map fst h) \<and>
        (\<forall>name val. map_of h name = Some val \<longleftrightarrow>
           (\<exists>pre line post. splitlines raw = pre @ line # post \<and> header_of line name val \<and>
              (\<forall>l \<in> set post. \<forall>v'. \<not> header_of l name v'))))
   \<and> parse_header_loop h0 (filter (\<lambda>l. strip l \<noteq> []) ls) = parse_header_loop h0 ls"
proof (intro conjI impI allI)
  show "parse_header_lines (''A: 1'' @ [CHR 0x0A] @ ''A: 2'' @ [CHR 0x0A] @ ''B:3'')
     = Inr [(''A'', ''2''), (''B'', ''3'')]"
    by (simp add: parse_header_lines_def splitlines_def is_linebreak_def strip_def is_space_def
        split_once_def)
next
  assume "parse_header_lines raw = Inr h"
  then show "distinct (map fst h)"
    using parse_header_loop_distinct[of "[]" "splitlines raw" h]
    by (simp add: parse_header_lines_def)
next
  fix name val
  assume "parse_header_lines raw = Inr h"
  then have "map_of h name = last_header (splitlines raw) name"
    using parse_header_loop_map_of[of "[]" "splitlines raw" h name]
    by (simp add: parse_header_lines_def split: option.splits)
  then show "map_of h name = Some val \<longleftrightarrow>
           (\<exists>pre line post. splitlines raw = pre @ line # post \<and> header_of line name val \<and>
              (\<forall>l \<in> set post. \<forall>v'. \<not> header_of l name v'))"
    by (simp add: last_header_Some_iff)
next
  show "parse_header_loop h0 (filter (\<lambda>l. strip l \<noteq> []) ls) = parse_header_loop h0 ls"
    by (rule parse_header_loop_skip_blank)
qed

theorem parse_header_lines_mapping_witness:
  "parse_header_lines (''X-A:  1 '' @ [CHR 0x0A, CHR 0x0A] @ ''X-A:2:3'') = Inr [(''X-A'', ''2:3'')]
   \<and> distinct (map fst [(''X-A'', ''2:3'')])
   \<and> (\<exists>pre line post. splitlines (''X-A:  1 '' @ [CHR 0x0A, CHR 0x0A] @ ''X-A:2:3'') = pre @ line # post
         \<and> header_of line ''X-A'' ''2:3'')"
proof -
  have ev: "parse_header_lines (''X-A:  1 '' @ [CHR 0x0A, CHR 0x0A] @ ''X-A:2:3'') = Inr [(''X-A'', ''2:3'')]"
    by (simp add: parse_header_lines_def splitlines_def is_linebreak_def strip_def is_space_def
        split_once_def)
  from parse_header_lines_mapping
         [of "''X-A:  1 '' @ [CHR 0x0A, CHR 0x0A] @ ''X-A:2:3''" "[(''X-A'', ''2:3'')]" "[]" "[]"] ev
  have "distinct (map fst [(''X-A'', ''2:3'')])"
    and "\<And>name val. map_of [(''X-A'', ''2:3'')] name = Some val \<longleftrightarrow>
           (\<exists>pre line post. splitlines (''X-A:  1 '' @ [CHR 0x0A, CHR 0x0A] @ ''X-A:2:3'') = pre @ line # post \<and> header_of line name val \<and>
              (\<forall>l \<in> set post. \<forall>v'. \<not> header_of l name v'))"
    by blast+
  from this(2)[of "''X-A''" "''2:3''"] this(1) ev show ?thesis by auto
qed

text \<open>
  Claim C6.  \<open>parse_header_lines\<close> raises exactly when some line is not blank and has
  no colon or an empty name; the error it raises is the one of the first such line and
  carries that line; and \<open>"bad-line-no-colon"\<close> raises the format error for that line.
\<close>

theorem parse_header_lines_error:
  "((\<exists>e. parse_header_lines raw = Inl e) \<longleftrightarrow> (\<exists>line \<in> set (splitlines raw). malformed line))
   \<and> (parse_header_lines raw = Inl e \<longleftrightarrow>
        (\<exists>pre line post. splitlines raw = pre @ line # post \<and>
           (\<forall>l \<in> set pre. \<not> malformed l) \<and> malformed line \<and>
           e = (if CHR '':'' \<notin> set (strip line) then HeaderFormatError line
                else HeaderNameEmpty line)))
   \<and> parse_header_lines ''bad-line-no-colon'' = Inl (HeaderFormatError ''bad-line-no-colon'')"
proof (intro conjI)
  show second: "parse_header_lines raw = Inl e \<longleftrightarrow>
        (\<exists>pre line post. splitlines raw = pre @ line # post \<and>
           (\<forall>l \<in> set pre. \<not> malformed l) \<and> malformed line \<and>
           e = (if CHR '':'' \<notin> set (strip line) then HeaderFormatError line
                else HeaderNameEmpty line))" for e
    unfolding parse_header_lines_def by (rule parse_header_loop_Inl)
  show "(\<exists>e. parse_header_lines raw = Inl e) \<longleftrightarrow> (\<exists>line \<in> set (splitlines raw). malformed line)"
  proof
    assume "\<exists>e. parse_header_lines raw = Inl e"
    then obtain e' where "parse_header_lines raw = Inl e'" by blast
    with second[of e'] show "\<exists>line \<in> set (splitlines raw). malformed line" by auto
  next
    assume "\<exists>line \<in> set (splitlines raw). malformed line"
    then obtain pre line post where d: "splitlines raw = pre @ line # post"
      "malformed line" "\<forall>l \<in> set pre. \<not> malformed l"
      using split_list_first_prop[of "splitlines raw" malformed] by blast
    then have "parse_header_lines raw = Inl (if CHR '':'' \<notin> set (strip line) then HeaderFormatError line
                else HeaderNameEmpty line)"
      using second by blast
    then show "\<exists>e. parse_header_lines raw = Inl e" by blast
  qed
  show "parse_header_lines ''bad-line-no-colon'' = Inl (HeaderFormatError ''bad-line-no-colon'')"
    by (simp add: parse_header_lines_def splitlines_def is_linebreak_def strip_def is_space_def)
qed

theorem parse_header_lines_error_witness:
  "parse_header_lines (''A: 1'' @ [CHR 0x0A] @ '' : v'') = Inl (HeaderNameEmpty '' : v'')
   \<and> \<not> malformed ''A: 1'' \<and> malformed '' : v''"
proof -
  have m: "\<not> malformed ''A: 1''" "malformed '' : v''"
    by (simp_all add: malformed_def strip_def is_space_def)
  have c: "CHR '':'' \<in> set (strip '' : v'')" by (simp add: strip_def is_space_def)
  have s: "splitlines (''A: 1'' @ [CHR 0x0A] @ '' : v'') = [''A: 1''] @ '' : v'' # []"
    by (simp add: splitlines_def is_linebreak_def)
  from parse_header_lines_error[of "''A: 1'' @ [CHR 0x0A] @ '' : v''" "HeaderNameEmpty '' : v''"]
  have "parse_header_lines (''A: 1'' @ [CHR 0x0A] @ '' : v'') = Inl (HeaderNameEmpty '' : v'') \<longleftrightarrow>
        (\<exists>pre line post. splitlines (''A: 1'' @ [CHR 0x0A] @ '' : v'') = pre @ line # post \<and>
           (\<forall>l \<in> set pre. \<not> malformed l) \<and> malformed line \<and>
           HeaderNameEmpty '' : v'' = (if CHR '':'' \<notin> set (strip line) then HeaderFormatError line
                else HeaderNameEmpty line))"
    by blast
  moreover have "splitlines (''A: 1'' @ [CHR 0x0A] @ '' : v'') = [''A: 1''] @ '' : v'' # [] \<and>
           (\<forall>l \<in> set [''A: 1'']. \<not> malformed l) \<and> malformed '' : v'' \<and>
           HeaderNameEmpty '' : v'' = (if CHR '':'' \<notin> set (strip '' : v'') then HeaderFormatError '' : v''
                else HeaderNameEmpty '' : v'')"
    using m c s by simp
  ultimately have "parse_header_lines (''A: 1'' @ [CHR 0x0A] @ '' : v'') = Inl (HeaderNameEmpty '' : v'')"
    by blast
  with m show ?thesis by simp
qed

section \<open>Properties of the latency accumulator\<close>

lemma record_all_snoc: "record_all (xs @ [x]) = add (record_all xs) x"
  by (simp add: record_all_def)

lemma record_all_count: "count (record_all xs) = int (length xs)"
  by (induction xs rule: rev_induct) (simp_all add: record_all_snoc add_def, simp add: record_all_def LatencyStats_init_def)

lemma record_all_total: "total_ms (record_all xs) = foldl fadd 0 xs"
  by (induction xs rule: rev_induct) (simp_all add: record_all_snoc add_def, simp add: record_all_def LatencyStats_init_def)

lemma add_min_Some: "min_ms s = Some m \<Longrightarrow> min_ms (add s x) = Some (min x m)"
  by (simp add: add_def min_def)

lemma add_max_Some: "max_ms s = Some m \<Longrightarrow> max_ms (add s x) = Some (max x m)"
  by (simp add: add_def max_def)

lemma record_all_min:
  "min_ms (record_all xs) = (if xs = [] then None else Some (Min (set xs)))"
proof (induction xs rule: rev_induct)
  case Nil
  then show ?case by (simp add: record_all_def LatencyStats_init_def)
next
  case (snoc x xs)
  show ?case
  proof (cases "xs = []")
    case True
    then show ?thesis by (simp add: record_all_def LatencyStats_init_def add_def)
  next
    case False
    then have "Min (set (xs @ [x])) = min x (Min (set xs))"
      by (simp add: Min_insert)
    moreover from False snoc have "min_ms (record_all xs) = Some (Min (set xs))" by simp
    then have "min_ms (add (record_all xs) x) = Some (min x (Min (set xs)))"
      by (rule add_min_Some)
    ultimately show ?thesis by (simp only: record_all_snoc) simp
  qed
qed

lemma record_all_max:
  "max_ms (record_all xs) = (if xs = [] then None else Some (Max (set xs)))"
proof (induction xs rule: rev_induct)
  case Nil
  then show ?case by (simp add: record_all_def LatencyStats_init_def)
next
  case (snoc x xs)
  show ?case
  proof (cases "xs = []")
    case True
    then show ?thesis by (simp add: record_all_def LatencyStats_init_def add_def)
  next
    case False
    then have "Max (set (xs @ [x])) = max x (Max (set xs))"
      by (simp add: Max_insert)
    moreover from False snoc have "max_ms (record_all xs) = Some (Max (set xs))" by simp
    then have "max_ms (add (record_all xs) x) = Some (max x (Max (set xs)))"
      by (rule add_max_Some)
    ultimately show ?thesis by (simp only: record_all_snoc) simp
  qed
qed

lemma sum_list_bounds:
  fixes xs :: "real list"
  assumes "xs \<noteq> []"
  shows "Min (set xs) * real (length xs) \<le> sum_list xs"
    and "sum_list xs \<le> Max (set xs) * real (length xs)"
proof -
  have "sum_list (map (\<lambda>_. Min (set xs)) xs) \<le> sum_list (map (\<lambda>x. x) xs)"
    by (rule sum_list_mono) simp
  then show "Min (set xs) * real (length xs) \<le> sum_list xs"
    by (simp add: sum_list_triv mult.commute)
  have "sum_list (map (\<lambda>x. x) xs) \<le> sum_list (map (\<lambda>_. Max (set xs)) xs)"
    by (rule sum_list_mono) simp
  then show "sum_list xs \<le> Max (set xs) * real (length xs)"
    by (simp add: sum_list_triv mult.commute)
qed

text \<open>
  Claim C9, as amended.  After a non-empty sequence of \<open>add\<close> calls the count is the
  number of calls, \<open>min_ms\<close> is the least and \<open>max_ms\<close> the greatest recorded value, so
  \<open>min_ms \<le> max_ms\<close>; \<open>total_ms\<close> is the float sum taken from left to right and the
  mean is its float quotient by the count.  When that sum and that quotient are exact
  (no rounding occurs), the mean lies between \<open>min_ms\<close> and \<open>max_ms\<close>.
\<close>

theorem latency_stats_min_max:
  "xs \<noteq> [] \<Longrightarrow>
     count (record_all xs) = int (length xs) \<and>
     min_ms (record_all xs) = Some (Min (set xs)) \<and>
     max_ms (record_all xs) = Some (Max (set xs)) \<and>
     Min (set xs) \<le> Max (set xs) \<and>
     total_ms (record_all xs) = foldl fadd 0 xs \<and>
     mean (record_all xs) = Some (fdiv (foldl fadd 0 xs) (float_of_int (int (length xs)))) \<and>
     (foldl fadd 0 xs = sum_list xs \<and>
      fdiv (sum_list xs) (float_of_int (int (length xs))) = sum_list xs / real (length xs) \<longrightarrow>
        Min (set xs) \<le> the (mean (record_all xs)) \<and> the (mean (record_all xs)) \<le> Max (set xs))"
proof -
  assume ne: "xs \<noteq> []"
  then have len: "0 < real (length xs)" by simp
  have m: "mean (record_all xs) = Some (fdiv (foldl fadd 0 xs) (float_of_int (int (length xs))))"
    using ne by (simp add: mean_def record_all_count record_all_total)
  have mm: "Min (set xs) \<le> Max (set xs)" using ne by simp
  have b1: "Min (set xs) \<le> sum_list xs / real (length xs)"
    using sum_list_bounds(1)[OF ne] len by (simp add: pos_le_divide_eq)
  have b2: "sum_list xs / real (length xs) \<le> Max (set xs)"
    using sum_list_bounds(2)[OF ne] len by (simp add: pos_divide_le_eq)
  show ?thesis
    using ne m mm b1 b2 by (simp add: record_all_count record_all_min record_all_max record_all_total)
qed

text \<open>Three samples of 10 ms: the sum 30 and the mean 10 are exact.\<close>

theorem latency_stats_min_max_witness:
  "[10, 10, 10] \<noteq> ([] :: real list) \<and>
   count (record_all [10, 10, 10]) = 3 \<and>
   min_ms (record_all [10, 10, 10]) = Some 10 \<and>
   max_ms (record_all [10, 10, 10]) = Some 10 \<and>
   foldl fadd 0 [10, 10, 10] = sum_list [10, 10, 10] \<and>
   fdiv (sum_list [10, 10, 10]) (float_of_int 3) = sum_list [10, 10, 10] / 3 \<and>
   mean (record_all [10, 10, 10]) = Some 10"
proof -
  have e1: "foldl fadd 0 [10, 10, 10] = sum_list [10, 10, 10]" by code_simp
  have e2: "fdiv (sum_list [10, 10, 10]) (float_of_int 3) = sum_list [10, 10, 10] / 3" by code_simp
  have e3: "fdiv 30 (float_of_int 3) = 10" by code_simp
  have e4: "foldl fadd 0 [10, 10, 10] = (30::real)" by code_simp
  from latency_stats_min_max[of "[10, 10, 10]"] e1 e2 e3 e4 show ?thesis by simp
qed

text \<open>
  The claim as stated fails under rounding.  Three samples of the float \<open>0.1\<close> sum to
  the float \<open>0.30000000000000004\<close>, and the mean \<open>0.10000000000000002\<close> is greater
  than the recorded maximum \<open>0.1\<close>.
\<close>

theorem latency_mean_above_max_counterexample:
  "mean (record_all [3602879701896397 / 36028797018963968,
                     3602879701896397 / 36028797018963968,
                     3602879701896397 / 36028797018963968])
     = Some (7205759403792795 / 72057594037927936)
   \<and> max_ms (record_all [3602879701896397 / 36028797018963968,
                     3602879701896397 / 36028797018963968,
                     3602879701896397 / 36028797018963968])
     = Some (3602879701896397 / 36028797018963968)
   \<and> fl (1 / 10) = 3602879701896397 / 36028797018963968
   \<and> (3602879701896397 / 36028797018963968 :: real) < 7205759403792795 / 72057594037927936"
  by code_simp

section \<open>Properties of the request executor\<close>

lemma fetch_Responded:
  "fetch t0 t1 (Responded code) = Inr (Some code, Some (fmul (fsub t1 t0) 1000), None)"
  by (simp add: fetch_def)

lemma fetch_Exception:
  "fetch t0 t1 (Raised (Exception cls msg)) = Inr (None, Some (fmul (fsub t1 t0) 1000), Some msg)"
  by (simp add: fetch_def)

lemma fetch_Inl_iff: "fetch t0 t1 r = Inl e \<longleftrightarrow> r = Raised e \<and> \<not> is_Exception e"
  by (auto simp: fetch_def split: transport_result.splits)

lemma fetch_Inr_latency:
  "fetch t0 t1 r = Inr (status, latency_ms, err) \<Longrightarrow>
     latency_ms = Some (fmul (fsub t1 t0) 1000) \<and> (err \<noteq> None \<longleftrightarrow> status = None)"
  by (auto simp: fetch_def split: transport_result.splits if_splits)

text \<open>
  Claim C3, as amended.  When the transport responds, or raises an exception that is an
  instance of \<open>Exception\<close>, \<open>fetch\<close> returns a triple whose latency is the measured one and
  whose error description is present exactly when the status is \<open>None\<close>.  An exception
  that is not an instance of \<open>Exception\<close>, as the \<open>CancelledError\<close> of a cancelled task,
  leaves \<open>fetch\<close>.
\<close>

theorem fetch_outcome:
  "((\<forall>e. r = Raised e \<longrightarrow> is_Exception e) \<longrightarrow>
      (\<exists>status err. fetch t0 t1 r = Inr (status, Some (fmul (fsub t1 t0) 1000), err) \<and>
         (err \<noteq> None \<longleftrightarrow> status = None)))
   \<and> (\<not> is_Exception e' \<longrightarrow> fetch t0 t1 (Raised e') = Inl e')
   \<and> fetch t0 t1 (Raised CancelledError) = Inl CancelledError"
  by (cases r) (auto simp: fetch_def)

text \<open>A timeout, a response with status 429, and an interrupt, each measured at 500 ms.\<close>

theorem fetch_outcome_witness:
  "fetch 1 (3 / 2) (Raised (Exception ''TimeoutError'' [])) = Inr (None, Some 500, Some [])
   \<and> fetch 1 (3 / 2) (Responded 429) = Inr (Some 429, Some 500, None)
   \<and> fetch 1 (3 / 2) (Raised (BaseException ''KeyboardInterrupt'' [])) = Inl (BaseException ''KeyboardInterrupt'' [])"
proof -
  have v: "fmul (fsub (3 / 2) 1) 1000 = 500" by code_simp
  from fetch_outcome[of "Raised (Exception ''TimeoutError'' [])" 1 "3 / 2" "BaseException ''KeyboardInterrupt'' []"]
  have "\<exists>status err. fetch 1 (3 / 2) (Raised (Exception ''TimeoutError'' []))
          = Inr (status, Some (fmul (fsub (3 / 2) 1) 1000), err) \<and> (err \<noteq> None \<longleftrightarrow> status = None)"
    and "fetch 1 (3 / 2) (Raised (BaseException ''KeyboardInterrupt'' [])) = Inl (BaseException ''KeyboardInterrupt'' [])"
    by simp_all
  then show ?thesis using v by (simp add: fetch_def)
qed

text \<open>
  The claim as stated fails for a cancelled request: \<open>fetch\<close> returns no outcome, the
  \<open>CancelledError\<close> leaves it.
\<close>

theorem fetch_cancelled_counterexample:
  "fetch 0 1 (Raised CancelledError) = Inl CancelledError"
  by (simp add: fetch_def)

section \<open>Properties of the pacing driver\<close>

subsection \<open>The tally\<close>

lemma counter_total_incr: "counter_total (counter_incr c k) = counter_total c + 1"
proof -
  have "sum_list (map snd (AList.update k (counter_get c k + 1) c)) = sum_list (map snd c) + 1"
  proof (induction c)
    case Nil
    then show ?case by (simp add: counter_get_def)
  next
    case (Cons p c)
    then show ?case by (cases p) (auto simp: counter_get_def)
  qed
  then show ?thesis by (simp add: counter_total_def counter_incr_def)
qed

subsection \<open>One finished task\<close>

lemma record_outcome_sent: "sent (record_outcome s out) = sent s + 1"
  by (cases out) (simp add: record_outcome_def Let_def)

lemma record_outcome_tally:
  "counter_total (probe_state.status_counts (record_outcome s out))
     = counter_total (probe_state.status_counts s) + 1"
  by (cases out) (simp add: record_outcome_def Let_def counter_total_incr)

lemma add_count: "count (add l x) = count l + 1"
  by (simp add: add_def)

lemma record_outcome_latency:
  "count (probe_state.latencies (record_outcome s (status, Some x, err)))
     = count (probe_state.latencies s) + 1"
  by (simp add: record_outcome_def Let_def add_count)

lemma record_outcome_ghost:
  "waves_started (record_outcome s out) = waves_started s"
  "tasks_created (record_outcome s out) = tasks_created s"
  "tasks_skipped (record_outcome s out) = tasks_skipped s"
  by (cases out; simp add: record_outcome_def Let_def)+

lemma process_finished_task:
  assumes "process_finished s (task_result c) = Inr s'"
  shows "(task_result c = Inl CancelledError \<and> sent s' = sent s \<and>
            probe_state.latencies s' = probe_state.latencies s \<and>
            probe_state.status_counts s' = probe_state.status_counts s \<and>
            log_queue s' = log_queue s \<and>
            tasks_skipped s' = tasks_skipped s + 1)
         \<or> (task_result c \<noteq> Inl CancelledError \<and> sent s' = sent s + 1 \<and>
            count (probe_state.latencies s') = count (probe_state.latencies s) + 1 \<and>
            counter_total (probe_state.status_counts s')
              = counter_total (probe_state.status_counts s) + 1 \<and>
            length (log_queue s') = length (log_queue s) + 1 \<and>
            tasks_skipped s' = tasks_skipped s)"
proof (cases "task_result c")
  case (Inl e)
  then have "transport c = Raised e" "\<not> is_Exception e"
    by (simp_all add: task_result_def fetch_Inl_iff)
  with Inl assms show ?thesis
    by (cases e) (auto simp: process_finished_def)
next
  case (Inr out)
  obtain status l err where out: "out = (status, l, err)" by (cases out)
  with Inr have "l = Some (fmul (fsub (t_end c) (t_start c)) 1000)"
    using fetch_Inr_latency[of "t_start c" "t_end c" "transport c" status l err]
    by (simp add: task_result_def)
  with Inr out assms have s': "s' = record_outcome s (status, Some (fmul (fsub (t_end c) (t_start c)) 1000), err)"
    by (simp add: process_finished_def)
  have "length (log_queue s') = length (log_queue s) + 1"
    unfolding s' by (simp add: record_outcome_def Let_def)
  with Inr show ?thesis
    unfolding s'
    by (simp add: record_outcome_sent record_outcome_tally record_outcome_latency
        record_outcome_ghost)
qed

lemma process_finished_frame:
  assumes "process_finished s res = Inr s'"
  shows "waves_started s' = waves_started s" "tasks_created s' = tasks_created s"
  using assms
  by (auto simp: process_finished_def record_outcome_ghost split: sum.splits raised.splits)


subsection \<open>The loops\<close>

lemma process_done_inv:
  assumes "process_done s cs = Inr s'"
  shows "(counts_agree s \<longrightarrow> counts_agree s')
       \<and> sent s' + int (tasks_skipped s') = sent s + int (tasks_skipped s) + int (length cs)
       \<and> waves_started s' = waves_started s \<and> tasks_created s' = tasks_created s"
  using assms
proof (induction cs arbitrary: s)
  case Nil
  then show ?case by simp
next
  case (Cons c cs)
  then obtain s1 where s1: "process_finished s (task_result c) = Inr s1"
      and rest: "process_done s1 cs = Inr s'"
    by (auto split: sum.splits)
  from process_finished_task[OF s1] process_finished_frame[OF s1]
  have "(counts_agree s \<longrightarrow> counts_agree s1)
       \<and> sent s1 + int (tasks_skipped s1) = sent s + int (tasks_skipped s) + 1
       \<and> waves_started s1 = waves_started s \<and> tasks_created s1 = tasks_created s"
    by (auto simp: counts_agree_def)
  with Cons.IH[OF rest] show ?case by simp
qed

lemma drain_pending_inv:
  assumes "drain_pending pending rs s = Some (Inr s')"
  shows "(counts_agree s \<longrightarrow> counts_agree s')
       \<and> sent s' + int (tasks_skipped s') = sent s + int (tasks_skipped s) + int pending
       \<and> waves_started s' = waves_started s \<and> tasks_created s' = tasks_created s"
  using assms
proof (induction rs arbitrary: pending s)
  case Nil
  then show ?case by (simp split: if_splits)
next
  case (Cons r rs)
  obtain stop dn where r: "r = (stop, dn)" by (cases r)
  show ?case
  proof (cases "pending = 0")
    case True
    with Cons.prems r show ?thesis by simp
  next
    case False
    define s1 where "s1 = (if stop then s\<lparr>cancel_calls := cancel_calls s + pending\<rparr> else s)"
    from False Cons.prems r have le: "length dn \<le> pending"
      by (simp split: if_splits)
    with False Cons.prems r obtain s2 where s2: "process_done s1 dn = Inr s2"
      and rest: "drain_pending (pending - length dn) rs s2 = Some (Inr s')"
      by (auto simp: s1_def Let_def split: if_splits sum.splits)
    have f1: "(counts_agree s \<longrightarrow> counts_agree s1) \<and> sent s1 = sent s
        \<and> tasks_skipped s1 = tasks_skipped s \<and> waves_started s1 = waves_started s
        \<and> tasks_created s1 = tasks_created s"
      by (simp add: s1_def counts_agree_def)
    from process_done_inv[OF s2] Cons.IH[OF rest] f1 le show ?thesis
      by auto
  qed
qed

lemma run_waves_inv:
  assumes "run_waves n end_time ws s = Some (Inr s')"
  shows "(counts_agree s \<longrightarrow> counts_agree s')
       \<and> sent s' + int (tasks_skipped s') + int (tasks_created s)
           = sent s + int (tasks_skipped s) + int (tasks_created s')
       \<and> waves_started s' \<le> waves_started s + length ws"
  using assms
proof (induction ws arbitrary: s)
  case Nil
  then show ?case by simp
next
  case (Cons w ws)
  show ?case
  proof (cases "now w < end_time \<and> \<not> stop_set w")
    case False
    with Cons.prems show ?thesis by auto
  next
    case True
    define s0 where "s0 = s\<lparr>waves_started := waves_started s + 1,
                   tasks_created := tasks_created s + nat n\<rparr>"
    from True Cons.prems obtain s1 where s1: "drain_pending (nat n) (rounds w) s0 = Some (Inr s1)"
      and rest: "run_waves n end_time ws s1 = Some (Inr s')"
      by (auto simp: s0_def split: option.splits sum.splits)
    have f0: "(counts_agree s \<longrightarrow> counts_agree s0) \<and> sent s0 = sent s
        \<and> tasks_skipped s0 = tasks_skipped s \<and> waves_started s0 = waves_started s + 1
        \<and> tasks_created s0 = tasks_created s + nat n"
      by (simp add: s0_def counts_agree_def)
    from drain_pending_inv[OF s1] Cons.IH[OF rest] f0 show ?thesis
      by auto
  qed
qed

lemma counts_agree_init: "counts_agree probe_state_init"
  by (simp add: counts_agree_def probe_state_init_def counter_total_def LatencyStats_init_def)

lemma sorted_bool_after_True:
  assumes "sorted (xs @ ys)" and "True \<in> set xs" and "y \<in> set ys"
  shows "y"
  using assms by (auto simp: sorted_append)

lemma stop_readings_Cons:
  "stop_readings (w # ws) = (stop_set w # map fst (rounds w)) @ stop_readings ws"
  by (simp add: stop_readings_def)

lemma run_waves_stops:
  assumes "run_waves n end_time ws s = Some (Inr s')"
    and "sorted (stop_readings ws)"
    and "k < length ws"
    and "True \<in> fst ` set (rounds (ws ! k))"
  shows "waves_started s' \<le> waves_started s + k + 1"
  using assms
proof (induction ws arbitrary: s k)
  case Nil
  then show ?case by simp
next
  case (Cons w ws)
  show ?case
  proof (cases "now w < end_time \<and> \<not> stop_set w")
    case False
    with Cons.prems(1) show ?thesis by auto
  next
    case True
    define s0 where "s0 = s\<lparr>waves_started := waves_started s + 1,
                   tasks_created := tasks_created s + nat n\<rparr>"
    from True Cons.prems(1) obtain s1 where s1: "drain_pending (nat n) (rounds w) s0 = Some (Inr s1)"
      and rest: "run_waves n end_time ws s1 = Some (Inr s')"
      by (auto simp: s0_def split: option.splits sum.splits)
    from drain_pending_inv[OF s1] have ws1: "waves_started s1 = waves_started s + 1"
      by (simp add: s0_def)
    show ?thesis
    proof (cases k)
      case 0
      with Cons.prems(4) have seen: "True \<in> set (stop_set w # map fst (rounds w))"
        by auto
      show ?thesis
      proof (cases ws)
        case Nil
        with rest show ?thesis by simp
      next
        case c: (Cons w' ws')
        have "stop_set w' \<in> set (stop_readings ws)"
          by (simp add: c stop_readings_Cons)
        with Cons.prems(2) seen have "stop_set w'"
          using sorted_bool_after_True[of "stop_set w # map fst (rounds w)" "stop_readings ws" "stop_set w'"]
          by (simp only: stop_readings_Cons)
        with rest c have "s' = s1" by simp
        with ws1 show ?thesis by simp
      qed
    next
      case (Suc j)
      from Cons.prems(2) have "sorted (stop_readings ws)"
        by (simp only: stop_readings_Cons sorted_append)
      moreover from Suc Cons.prems(3,4) have "j < length ws" "True \<in> fst ` set (rounds (ws ! j))"
        by simp_all
      ultimately have "waves_started s' \<le> waves_started s1 + j + 1"
        using Cons.IH[OF rest] by blast
      with ws1 Suc show ?thesis by simp
    qed
  qed
qed

subsection \<open>The run\<close>

lemma run_probe_Some:
  assumes "run_probe u m n d t hdrs b env = Some (Inr (summary, s))"
  obtains s0 where
    "run_waves n (fadd (start env) (float_of_int d)) (waves env) probe_state_init
       = Some (Inr s0)"
    "total_sent summary = sent s0"
    "status_counts summary = probe_state.status_counts s0"
    "latencies summary = probe_state.latencies s0"
    "elapsed_s summary = fsub (finish env) (start env)"
    "started_at summary = summary_start env"
    "s = s0\<lparr>log_queue := log_queue s0 @ [LogEnd (sent s0) (fsub (finish env) (start env))]\<rparr>"
  using assms
  by (auto simp: run_probe_def Let_def split: option.splits sum.splits)

text \<open>
  Claim C1.  The summary of every completed run has the sum of its status counts equal
  to \<open>total_sent\<close> and equal to the latency count, and every finished task that is
  processed, that is, every one that was not cancelled, adds one to the sent counter,
  one latency sample and one to the tally.
\<close>

theorem run_probe_counts:
  "(run_probe u m n d t hdrs b env = Some (Inr (summary, s)) \<longrightarrow>
      counter_total (status_counts summary) = total_sent summary \<and>
      total_sent summary = count (latencies summary))
   \<and> (process_finished s0 (task_result c) = Inr s1 \<and> task_result c \<noteq> Inl CancelledError \<longrightarrow>
      sent s1 = sent s0 + 1 \<and>
      count (probe_state.latencies s1) = count (probe_state.latencies s0) + 1 \<and>
      counter_total (probe_state.status_counts s1)
        = counter_total (probe_state.status_counts s0) + 1)"
proof (intro conjI impI)
  assume "run_probe u m n d t hdrs b env = Some (Inr (summary, s))"
  then obtain p where p: "run_waves n (fadd (start env) (float_of_int d)) (waves env)
        probe_state_init = Some (Inr p)"
    and eq: "total_sent summary = sent p" "status_counts summary = probe_state.status_counts p"
      "latencies summary = probe_state.latencies p"
    by (rule run_probe_Some)
  from run_waves_inv[OF p] counts_agree_init have "counts_agree p" by simp
  with eq show "counter_total (status_counts summary) = total_sent summary"
    and "total_sent summary = count (latencies summary)"
    by (simp_all add: counts_agree_def)
next
  assume a: "process_finished s0 (task_result c) = Inr s1 \<and> task_result c \<noteq> Inl CancelledError"
  with process_finished_task[of s0 c s1]
  show "sent s1 = sent s0 + 1"
    and "count (probe_state.latencies s1) = count (probe_state.latencies s0) + 1"
    and "counter_total (probe_state.status_counts s1)
        = counter_total (probe_state.status_counts s0) + 1"
    by auto
qed

lemma run_env_mixed:
  "run_probe ''http://h/'' ''GET'' 2 1 10 [] None env_mixed =
     Some (Inr (\<lparr>total_sent = 2, status_counts = [(Code 429, 1), (ERR, 1)], elapsed_s = 1,
                  latencies = \<lparr>count = 2, total_ms = 375 / 8, min_ms = Some (125 / 8),
                                max_ms = Some (125 / 4)\<rparr>,
                  started_at = example_start\<rparr>,
                \<lparr>sent = 2,
                  latencies = \<lparr>count = 2, total_ms = 375 / 8, min_ms = Some (125 / 8),
                                max_ms = Some (125 / 4)\<rparr>,
                  status_counts = [(Code 429, 1), (ERR, 1)],
                  log_queue = [LogRequest 1 ''429'' (Some (125 / 8)) [],
                               LogRequest 2 ''ERR'' (Some (125 / 4)) ''refused'',
                               LogEnd 2 1],
                  waves_started = 1, tasks_created = 2, cancel_calls = 0, tasks_skipped = 0\<rparr>))"
  by code_simp


text \<open>The first example: two requests sent, two status entries, two latency samples.\<close>

theorem run_probe_counts_witness:
  "\<exists>summary s. run_probe ''http://h/'' ''GET'' 2 1 10 [] None env_mixed = Some (Inr (summary, s)) \<and>
     total_sent summary = 2 \<and> counter_total (status_counts summary) = 2 \<and>
     count (latencies summary) = 2 \<and> status_counts summary = [(Code 429, 1), (ERR, 1)]"
proof -
  obtain summary s where r: "run_probe ''http://h/'' ''GET'' 2 1 10 [] None env_mixed = Some (Inr (summary, s))"
    and v: "total_sent summary = 2" "status_counts summary = [(Code 429, 1), (ERR, 1)]"
    using run_env_mixed by simp
  from run_probe_counts[of "''http://h/''" "''GET''" 2 1 10 "[]" None env_mixed summary s] r
  have "counter_total (status_counts summary) = total_sent summary"
    and "total_sent summary = count (latencies summary)"
    by simp_all
  with r v show ?thesis by simp
qed

text \<open>
  Claim C4, as amended.  In every completed run each request launched was either
  recorded, in the sent counter, the latency accumulator and the status tally alike, or
  was cancelled and passed over without a record.  When the stop flag, which stays set
  once it is set, reads set during wave \<open>k\<close>, no wave after wave \<open>k\<close> is started.
\<close>

theorem run_probe_cancellation:
  "run_probe u m n d t hdrs b env = Some (Inr (summary, s)) \<Longrightarrow>
     total_sent summary + int (tasks_skipped s) = int (tasks_created s) \<and>
     counter_total (status_counts summary) = total_sent summary \<and>
     count (latencies summary) = total_sent summary \<and>
     (\<forall>k. sorted (stop_readings (waves env)) \<and> k < length (waves env) \<and>
          True \<in> fst ` set (rounds (waves env ! k)) \<longrightarrow> waves_started s \<le> k + 1)"
proof -
  assume "run_probe u m n d t hdrs b env = Some (Inr (summary, s))"
  then obtain p where p: "run_waves n (fadd (start env) (float_of_int d)) (waves env)
        probe_state_init = Some (Inr p)"
    and eq: "total_sent summary = sent p" "status_counts summary = probe_state.status_counts p"
      "latencies summary = probe_state.latencies p"
      "s = p\<lparr>log_queue := log_queue p @ [LogEnd (sent p) (fsub (finish env) (start env))]\<rparr>"
    by (rule run_probe_Some)
  from run_waves_inv[OF p] counts_agree_init
  have agree: "counts_agree p"
    and bal: "sent p + int (tasks_skipped p) = int (tasks_created p)"
    by (simp_all add: probe_state_init_def)
  have stop: "waves_started s \<le> k + 1"
    if "sorted (stop_readings (waves env))" "k < length (waves env)"
       "True \<in> fst ` set (rounds (waves env ! k))" for k
    using run_waves_stops[OF p that] eq(4) by (simp add: probe_state_init_def)
  from agree bal eq stop show ?thesis
    by (simp add: counts_agree_def)
qed

lemma run_env_stop:
  "run_probe ''http://h/'' ''GET'' 2 30 10 [] None env_stop =
     Some (Inr (\<lparr>total_sent = 1, status_counts = [(Code 200, 1)], elapsed_s = 1 / 8,
                  latencies = \<lparr>count = 1, total_ms = 125 / 8, min_ms = Some (125 / 8),
                                max_ms = Some (125 / 8)\<rparr>,
                  started_at = example_start\<rparr>,
                \<lparr>sent = 1,
                  latencies = \<lparr>count = 1, total_ms = 125 / 8, min_ms = Some (125 / 8),
                                max_ms = Some (125 / 8)\<rparr>,
                  status_counts = [(Code 200, 1)],
                  log_queue = [LogRequest 1 ''200'' (Some (125 / 8)) [], LogEnd 1 (1 / 8)],
                  waves_started = 1, tasks_created = 2, cancel_calls = 1, tasks_skipped = 1\<rparr>))"
  by code_simp

text \<open>
  The third example: of the two requests of the only wave one is recorded and one is
  cancelled, and the stop flag read during that wave keeps a second wave from starting.
\<close>

theorem run_probe_cancellation_witness:
  "\<exists>summary s. run_probe ''http://h/'' ''GET'' 2 30 10 [] None env_stop = Some (Inr (summary, s)) \<and>
     total_sent summary = 1 \<and> tasks_skipped s = 1 \<and> tasks_created s = 2 \<and>
     sorted (stop_readings (waves env_stop)) \<and> True \<in> fst ` set (rounds (waves env_stop ! 0)) \<and>
     waves_started s \<le> 1"
proof -
  obtain summary s where r: "run_probe ''http://h/'' ''GET'' 2 30 10 [] None env_stop = Some (Inr (summary, s))"
    and v: "total_sent summary = 1" "tasks_skipped s = 1" "tasks_created s = 2"
    using run_env_stop by simp
  have h: "sorted (stop_readings (waves env_stop))" "0 < length (waves env_stop)"
    "True \<in> fst ` set (rounds (waves env_stop ! 0))"
    by (simp_all add: env_stop_def stop_readings_def)
  from run_probe_cancellation[OF r] h have "waves_started s \<le> 0 + 1" by blast
  with r v h show ?thesis by simp
qed

text \<open>
  The claim as stated fails in the second example: the run launches one request, the
  stop flag is read set while it is pending, and the run ends with nothing sent, no
  latency sample, an empty tally and no log line for the request.
\<close>

theorem run_probe_cancelled_dropped_counterexample:
  "run_probe ''http://h/'' ''GET'' 1 30 10 [] None env_cancel =
     Some (Inr (\<lparr>total_sent = 0, status_counts = [], elapsed_s = 1 / 32,
                  latencies = \<lparr>count = 0, total_ms = 0, min_ms = None, max_ms = None\<rparr>,
                  started_at = example_start\<rparr>,
                \<lparr>sent = 0,
                  latencies = \<lparr>count = 0, total_ms = 0, min_ms = None, max_ms = None\<rparr>,
                  status_counts = [],
                  log_queue = [LogEnd 0 (1 / 32)],
                  waves_started = 1, tasks_created = 1, cancel_calls = 1, tasks_skipped = 1\<rparr>))"
  by code_simp

section \<open>Properties of the run configuration\<close>

subsection \<open>The errors of the steps\<close>

lemma parse_header_loop_header_error:
  "parse_header_loop h0 ls = Inl e \<Longrightarrow> header_error e"
  by (induction h0 ls rule: parse_header_loop.induct)
     (auto simp: Let_def split: if_splits prod.splits)

lemma parse_header_lines_header_error:
  "parse_header_lines raw = Inl e \<Longrightarrow> header_error e"
  unfolding parse_header_lines_def by (rule parse_header_loop_header_error)

lemma from_fields_Inl: "from_fields u m n d t ht bt = Inl e \<longleftrightarrow> parse_header_lines ht = Inl e"
  by (auto simp: from_fields_def split: sum.splits)

lemma andthen_Inl:
  "andthen m f = Some (Inl e) \<longleftrightarrow>
     m = Some (Inl e) \<or> (\<exists>x. m = Some (Inr x) \<and> f x = Some (Inl e))"
  by (auto simp: andthen_def split: option.splits sum.splits)

lemma str_of_not_Inl: "str_of v \<noteq> Some (Inl e)"
  by (auto simp: str_of_def)

lemma upper_of_not_Inl: "upper_of s \<noteq> Some (Inl e)"
  by (auto simp: upper_of_def)

lemma int_of_text_Inl: "int_of_text s = Some (Inl e) \<Longrightarrow> conversion_error e"
  by (auto simp: int_of_text_def raises_def returns_def Let_def split: if_splits prod.splits)

lemma float_of_text_Inl: "float_of_text s = Some (Inl e) \<Longrightarrow> conversion_error e"
  by (auto simp: float_of_text_def raises_def returns_def Let_def
      split: if_splits prod.splits option.splits)

lemma py_int_Inl: "py_int v = Some (Inl e) \<Longrightarrow> conversion_error e"
  by (cases v) (auto simp: raises_def returns_def int_of_text_Inl split: special.splits)

lemma py_float_Inl: "py_float v = Some (Inl e) \<Longrightarrow> conversion_error e"
  by (cases v) (auto simp: raises_def returns_def float_of_text_Inl split: if_splits)

lemma from_dict_Inl:
  assumes "from_dict data = Some (Inl e)"
  shows "e = KeyError ''url'' \<or> conversion_error e \<or> header_error e"
proof (cases data)
  case (PDict kvs)
  show ?thesis
  proof (cases "map_of kvs ''url''")
    case None
    with assms PDict show ?thesis by (simp add: from_dict_def raises_def)
  next
    case (Some v)
    with assms PDict show ?thesis
      by (auto simp: from_dict_def andthen_Inl str_of_not_Inl upper_of_not_Inl from_fields_Inl
          dest: py_int_Inl py_float_Inl parse_header_lines_header_error)
  qed
qed (use assms in \<open>auto simp: from_dict_def raises_def\<close>)






section \<open>Properties of headless mode\<close>

lemma andthen_simps:
  "andthen None f = None"
  "andthen (Some (Inl e)) f = Some (Inl e)"
  "andthen (Some (Inr x)) f = f x"
  by (simp_all add: andthen_def)

lemma read_text_ValueError:
  "read_text fs path = Inl (ValueError msg) \<Longrightarrow> msg = ''embedded null byte''"
  by (auto simp: read_text_def split: if_splits option.splits file_data.splits)

lemma text_or_file_ValueError:
  "text_or_file fs txt path = Inl (ValueError msg) \<Longrightarrow> msg = ''embedded null byte''"
  by (auto simp: text_or_file_def dest: read_text_ValueError split: if_splits)

lemma load_preset_ValueError:
  "load_preset fs path = Inl (ValueError msg) \<Longrightarrow> msg = ''embedded null byte''"
  by (auto simp: load_preset_def split: if_splits option.splits file_data.splits)

lemma preset_config_Inl: "preset_config v = Inl e \<Longrightarrow> e = TypeError"
  by (cases v) (auto split: option.splits if_splits)

lemma from_dict_ValueError:
  "from_dict data = Some (Inl (ValueError msg)) \<Longrightarrow> msg = ''cannot convert float NaN to integer''"
  by (drule from_dict_Inl) simp

lemma build_config_ValueError:
  assumes "build_config u m n d t ht bt = Some (Inl (ValueError msg))"
  shows "msg = ''URL is required in headless mode (use --url or preset with URL)''"
proof (cases "truthy u")
  case False
  with assms show ?thesis by (simp add: build_config_def raises_def)
next
  case True
  with assms have "\<exists>m'. from_fields (strip (the u)) (str_or m' ''GET'') n d t ht bt = Inl (ValueError msg)"
    by (auto simp: build_config_def andthen_Inl upper_of_not_Inl)
  then have "parse_header_lines ht = Inl (ValueError msg)"
    by (auto simp: from_fields_Inl)
  then show ?thesis by (auto dest: parse_header_lines_header_error)
qed

lemma headless_config_ValueError:
  assumes nh: "\<not> (truthy (args_headers args) \<and> truthy (args_headers_path args))"
    and nb: "\<not> (truthy (args_body args) \<and> truthy (args_body_path args))"
    and cfg: "headless_config fs args = Some (Inl (ValueError msg))"
  shows "msg = ''embedded null byte'' \<or> msg = ''cannot convert float NaN to integer'' \<or>
         msg = ''URL is required in headless mode (use --url or preset with URL)''"
proof -
  note unf = headless_config_def andthen_simps if_not_P[OF nh] if_not_P[OF nb]
  show ?thesis
  proof (cases "text_or_file fs (args_headers args) (args_headers_path args)")
  case (Inl e)
  with cfg have "e = ValueError msg"
    by (simp add: unf split del: if_split)
  with Inl show ?thesis by (auto dest: text_or_file_ValueError)
next
  case h: (Inr ht)
  show ?thesis
  proof (cases "text_or_file fs (args_body args) (args_body_path args)")
    case (Inl e)
    with cfg h have "e = ValueError msg"
      by (simp add: unf split del: if_split)
    with Inl show ?thesis by (auto dest: text_or_file_ValueError)
  next
    case b: (Inr bt)
    show ?thesis
    proof (cases "truthy (args_preset args)")
      case False
      note unf = unf if_not_P[OF False]
      from cfg h b have
        "andthen (upper_of (str_or (args_method args) ''GET''))
           (\<lambda>method_up. build_config (args_url args) method_up (args_rps args)
              (args_duration args) (args_timeout args) ht bt) = Some (Inl (ValueError msg))"
        by (simp add: unf split del: if_split)
      then obtain mu where "build_config (args_url args) mu (args_rps args)
              (args_duration args) (args_timeout args) ht bt = Some (Inl (ValueError msg))"
        by (auto simp: andthen_Inl upper_of_not_Inl)
      then show ?thesis by (auto dest: build_config_ValueError)
    next
      case True
      note unf = unf if_P[OF True]
      show ?thesis
      proof (cases "load_preset fs (the (args_preset args))")
        case (Inl e)
        with cfg h b have "e = ValueError msg"
          by (simp add: unf split del: if_split)
        with Inl show ?thesis by (auto dest: load_preset_ValueError)
      next
        case d: (Inr data)
        show ?thesis
        proof (cases "preset_config data")
          case (Inl e)
          with cfg h b d have "e = ValueError msg"
            by (simp add: unf split del: if_split)
          with Inl show ?thesis by (auto dest: preset_config_Inl)
        next
          case c: (Inr chosen)
          from cfg h b d c have
            "andthen (from_dict chosen) (\<lambda>preset.
               build_config
                 (if truthy (args_url args) then args_url args else Some (url preset))
                 (str_or (args_method args) (method preset))
                 (if args_rps args \<noteq> 0 then args_rps args else rps preset)
                 (if args_duration args \<noteq> 0 then args_duration args else duration_s preset)
                 (if args_timeout args \<noteq> 0 then args_timeout args else timeout_s preset)
                 (if ht = [] then headers_text preset else ht)
                 (if bt = [] then body_text preset else bt)) = Some (Inl (ValueError msg))"
            by (simp add: unf split del: if_split)
          then have "from_dict chosen = Some (Inl (ValueError msg)) \<or>
              (\<exists>u m n d t ht' bt'. build_config u m n d t ht' bt' = Some (Inl (ValueError msg)))"
            unfolding andthen_Inl by blast
          then show ?thesis
            by (auto dest: from_dict_ValueError build_config_ValueError)
        qed
      qed
    qed
  qed
  qed
qed

lemma write_text_ValueError:
  "write_text fs path = Inl (ValueError msg) \<Longrightarrow> msg = ''embedded null byte''"
  by (auto simp: write_text_def split: if_splits)

text \<open>The ways \<open>run_headless\<close> ends with an error that it raised itself.\<close>

lemma run_headless_Failed_iff:
  "run_headless fs env args = Some (Failed e) \<longleftrightarrow> headless_config fs args = Some (Inl e)"
proof (cases "headless_config fs args")
  case None
  then show ?thesis by (simp add: run_headless_def)
next
  case (Some r)
  show ?thesis
  proof (cases r)
    case (Inl e')
    with Some show ?thesis by (simp add: run_headless_def)
  next
    case (Inr config)
    with Some show ?thesis
      by (simp add: run_headless_def Let_def split: option.split sum.split prod.split)
  qed
qed

lemma run_headless_WriteFailed:
  assumes "run_headless fs env args = Some (WriteFailed (ValueError msg) lg)"
  shows "msg = ''embedded null byte''"
proof -
  from assms obtain p where "write_text fs p = Inl (ValueError msg)"
    unfolding run_headless_def Let_def
    by (auto split: option.splits sum.splits prod.splits if_splits)
  then show ?thesis by (rule write_text_ValueError)
qed

text \<open>
  Claim C10, as amended.  \<open>run_headless\<close> raises the \<open>ValueError\<close> of the header options
  exactly when \<open>--headers\<close> and \<open>--headers-path\<close> are both given and not empty, and the
  one of the body options exactly when the header options do not clash and \<open>--body\<close>
  and \<open>--body-path\<close> are both given and not empty.  It does so before the run starts,
  whatever the files and the network are: nothing is read, built or sent before.  When
  the options of a pair do not clash, no error with the message of that pair is
  raised, neither before the run nor when the results are written; the other errors of
  the configuration, among them other \<open>ValueError\<close>s, can still be raised.
\<close>

theorem run_headless_exclusive_options:
  "(run_headless fs env args
      = Some (Failed (ValueError ''--headers and --headers-path cannot be used together''))
      \<longleftrightarrow> truthy (args_headers args) \<and> truthy (args_headers_path args))
   \<and> (run_headless fs env args
      = Some (Failed (ValueError ''--body and --body-path cannot be used together''))
      \<longleftrightarrow> \<not> (truthy (args_headers args) \<and> truthy (args_headers_path args)) \<and>
          truthy (args_body args) \<and> truthy (args_body_path args))
   \<and> run_headless fs env args
      \<noteq> Some (WriteFailed (ValueError ''--headers and --headers-path cannot be used together'') lg)
   \<and> run_headless fs env args
      \<noteq> Some (WriteFailed (ValueError ''--body and --body-path cannot be used together'') lg)"
proof -
  have w: "run_headless fs env args
      \<noteq> Some (WriteFailed (ValueError ''--headers and --headers-path cannot be used together'') lg)"
    "run_headless fs env args
      \<noteq> Some (WriteFailed (ValueError ''--body and --body-path cannot be used together'') lg)"
    using run_headless_WriteFailed[of fs env args _ lg] by fastforce+
  consider (h) "truthy (args_headers args) \<and> truthy (args_headers_path args)"
    | (b) "\<not> (truthy (args_headers args) \<and> truthy (args_headers_path args))"
          "truthy (args_body args) \<and> truthy (args_body_path args)"
    | (none) "\<not> (truthy (args_headers args) \<and> truthy (args_headers_path args))"
          "\<not> (truthy (args_body args) \<and> truthy (args_body_path args))"
    by blast
  then show ?thesis
  proof cases
    case h
    then have "headless_config fs args
        = Some (Inl (ValueError ''--headers and --headers-path cannot be used together''))"
      by (simp add: headless_config_def raises_def)
    with h w show ?thesis by (simp add: run_headless_Failed_iff)
  next
    case b
    then have "headless_config fs args
        = Some (Inl (ValueError ''--body and --body-path cannot be used together''))"
      by (simp add: headless_config_def raises_def)
    with b w show ?thesis by (simp add: run_headless_Failed_iff)
  next
    case none
    from headless_config_ValueError[OF none, of fs]
    have "headless_config fs args
        \<noteq> Some (Inl (ValueError ''--headers and --headers-path cannot be used together''))"
      and "headless_config fs args
        \<noteq> Some (Inl (ValueError ''--body and --body-path cannot be used together''))"
      by fastforce+
    with none w show ?thesis by (simp add: run_headless_Failed_iff)
  qed
qed

text \<open>
  Both header options given with a text, on any files and any network.  And a command
  line without a clash that names the preset whose rate is the text \<open>abc\<close>: the
  \<open>ValueError\<close> of \<open>int\<close> is raised, not one of the two checks.
\<close>

theorem run_headless_exclusive_options_witness:
  "truthy (args_headers (args_example\<lparr>args_headers := Some ''A: 1'', args_headers_path := Some ''h.txt''\<rparr>))
   \<and> truthy (args_headers_path (args_example\<lparr>args_headers := Some ''A: 1'', args_headers_path := Some ''h.txt''\<rparr>))
   \<and> run_headless files_example env_mixed
        (args_example\<lparr>args_headers := Some ''A: 1'', args_headers_path := Some ''h.txt''\<rparr>)
      = Some (Failed (ValueError ''--headers and --headers-path cannot be used together''))
   \<and> run_headless files_example env_mixed (args_example\<lparr>args_preset := Some ''p.json''\<rparr>)
      = Some (Failed (IntLiteralError ''abc''))
   \<and> is_ValueError (IntLiteralError ''abc'')"
proof -
  have other: "run_headless files_example env_mixed (args_example\<lparr>args_preset := Some ''p.json''\<rparr>)
      = Some (Failed (IntLiteralError ''abc''))"
    by code_simp
  from run_headless_exclusive_options[of files_example env_mixed
      "args_example\<lparr>args_headers := Some ''A: 1'', args_headers_path := Some ''h.txt''\<rparr>"]
    other
  show ?thesis by (simp add: truthy_def)
qed

text \<open>
  The claim as stated fails when one option of a pair is given with an empty text:
  with \<open>--headers ""\<close> and \<open>--headers-path h.txt\<close> both options are supplied, no error is
  raised, and the configuration is built with the headers of the file.
\<close>

theorem run_headless_empty_option_counterexample:
  "args_headers args_empty_headers = Some [] \<and>
   args_headers_path args_empty_headers = Some ''h.txt'' \<and>
   headless_config files_example args_empty_headers =
     Some (Inr \<lparr>url = ''http://h/'', method = ''GET'', rps = 2, duration_s = 1, timeout_s = 10,
          headers = [(''A'', ''1'')], body = None, headers_text = ''A: 1'', body_text = []\<rparr>) \<and>
   run_headless files_example env_mixed args_empty_headers
     \<noteq> Some (Failed (ValueError ''--headers and --headers-path cannot be used together''))"
  by code_simp


section \<open>Properties of the run summary\<close>

subsection \<open>Decimal digits\<close>

lemma of_char_digit: "d < 10 \<Longrightarrow> (of_char (char_of (48 + d :: nat)) :: nat) = 48 + d"
  by simp

lemma is_digit_char_of: "d < 10 \<Longrightarrow> is_digit (char_of (48 + d :: nat))"
  by (simp add: is_digit_def)

lemma str_nat_digits: "list_all is_digit (str_nat n)"
proof (induction n rule: str_nat.induct)
  case (1 n)
  show ?case
  proof (cases "n < 10")
    case True
    then show ?thesis by (subst str_nat.simps) (simp add: is_digit_char_of)
  next
    case False
    with 1 show ?thesis by (subst str_nat.simps) (simp add: is_digit_char_of)
  qed
qed

lemma str_nat_nonempty: "str_nat n \<noteq> []"
  by (subst str_nat.simps) simp

lemma str_nat_length: "0 < k \<Longrightarrow> n < 10 ^ k \<Longrightarrow> length (str_nat n) \<le> k"
proof (induction n arbitrary: k rule: str_nat.induct)
  case (1 n)
  show ?case
  proof (cases "n < 10")
    case True
    with 1(2) show ?thesis by (subst str_nat.simps) simp
  next
    case False
    with 1(3) have "1 < k" by (cases k; cases "k - 1") auto
    then obtain j where j: "k = Suc j" "0 < j" by (cases k) auto
    with 1(3) have "n div 10 < 10 ^ j"
      by (simp add: less_mult_imp_div_less mult.commute)
    with 1(1)[OF False j(2)] have "length (str_nat (n div 10)) \<le> j" by simp
    with False j show ?thesis by (subst str_nat.simps) simp
  qed
qed

lemma nat_of_digits_snoc: "nat_of_digits (s @ [c]) = 10 * nat_of_digits s + (of_char c - 48)"
  by (simp add: nat_of_digits_def)

lemma nat_of_digits_str_nat: "nat_of_digits (str_nat n) = n"
proof (induction n rule: str_nat.induct)
  case (1 n)
  show ?case
  proof (cases "n < 10")
    case True
    then show ?thesis by (subst str_nat.simps) (simp add: nat_of_digits_def)
  next
    case False
    with 1 show ?thesis
      by (subst str_nat.simps) (simp add: nat_of_digits_snoc)
  qed
qed

lemma nat_of_digits_zeros: "nat_of_digits (replicate j CHR ''0'' @ s) = nat_of_digits s"
proof -
  have "foldl (\<lambda>acc c. 10 * acc + (of_char c - 48)) (0::nat) (replicate j CHR ''0'') = 0"
    by (induction j) simp_all
  then show ?thesis by (simp add: nat_of_digits_def)
qed

lemma str_nat_inj: "str_nat a = str_nat b \<Longrightarrow> a = b"
  by (metis nat_of_digits_str_nat)

lemma str_nat_hd_digit: "is_digit (hd (str_nat n))"
  using str_nat_digits[of n] str_nat_nonempty[of n]
  by (cases "str_nat n") simp_all

lemma str_int_inj: "str_int a = str_int b \<Longrightarrow> a = b"
proof -
  assume eq: "str_int a = str_int b"
  have nd: "\<not> is_digit CHR ''-''" by (simp add: is_digit_def)
  have neq: "CHR ''-'' # str_nat x \<noteq> str_nat y" for x y
    using str_nat_hd_digit[of y] nd by (cases "str_nat y") auto
  show "a = b"
  proof (cases "a < 0"; cases "b < 0")
    assume "a < 0" "b < 0"
    with eq have "nat (- a) = nat (- b)" by (simp add: str_int_def str_nat_inj)
    with \<open>a < 0\<close> \<open>b < 0\<close> show ?thesis by simp
  next
    assume "a < 0" "\<not> b < 0"
    with eq neq show ?thesis by (simp add: str_int_def)
  next
    assume "\<not> a < 0" "b < 0"
    with eq neq[of "nat (- b)" "nat a"] show ?thesis by (simp add: str_int_def)
  next
    assume "\<not> a < 0" "\<not> b < 0"
    with eq have "nat a = nat b" by (simp add: str_int_def str_nat_inj)
    with \<open>\<not> a < 0\<close> \<open>\<not> b < 0\<close> show ?thesis by simp
  qed
qed

lemma str_int_not_ERR: "str_int a \<noteq> ''ERR''"
proof
  assume eq: "str_int a = ''ERR''"
  have "\<not> is_digit CHR ''E''" by (simp add: is_digit_def)
  with eq str_nat_hd_digit[of "nat a"] show False
    by (auto simp: str_int_def split: if_splits)
qed

lemma str_status_key_inj: "str_status_key a = str_status_key b \<Longrightarrow> a = b"
  using str_int_not_ERR str_int_inj
  by (cases a; cases b) (auto dest: sym)


subsection \<open>The status counts as a dictionary of texts\<close>

lemma update_fresh: "k \<notin> fst ` set d \<Longrightarrow> AList.update k v d = d @ [(k, v)]"
  by (induction d) auto

lemma status_counts_dict_distinct:
  assumes "distinct (map fst c)"
  shows "status_counts_dict c = map (\<lambda>(k, v). (str_status_key k, JInt v)) c"
proof -
  have "foldl (\<lambda>d (k, v). AList.update (str_status_key k) (JInt v) d) acc c
          = acc @ map (\<lambda>(k, v). (str_status_key k, JInt v)) c"
    if "distinct (map fst c)" "fst ` set acc \<inter> str_status_key ` fst ` set c = {}" for acc
    using that
  proof (induction c arbitrary: acc)
    case Nil
    then show ?case by simp
  next
    case (Cons p c)
    obtain k v where p: "p = (k, v)" by (cases p)
    from Cons.prems(2) p have fresh: "str_status_key k \<notin> fst ` set acc" by auto
    have "fst ` set (acc @ [(str_status_key k, JInt v)]) \<inter> str_status_key ` fst ` set c = {}"
    proof -
      from Cons.prems(1) p have "k \<notin> fst ` set c" by auto
      then have "str_status_key k \<notin> str_status_key ` fst ` set c"
        using str_status_key_inj by blast
      with Cons.prems(2) show ?thesis by auto
    qed
    with Cons.IH[of "acc @ [(str_status_key k, JInt v)]"] Cons.prems(1) p fresh
    show ?case by (simp add: update_fresh)
  qed
  from this[of "[]"] assms show ?thesis by (simp add: status_counts_dict_def)
qed

subsection \<open>Rounding to three decimals\<close>

lemma round_half_even_near: "\<bar>x - of_int (round_half_even x)\<bar> \<le> 1 / 2"
proof -
  have "of_int \<lfloor>x\<rfloor> \<le> x" "x < of_int \<lfloor>x\<rfloor> + 1" by linarith+
  then show ?thesis
    by (auto simp: round_half_even_def Let_def)
qed

lemma round3_rounded: "rounded_3dp x (round3 x)"
  unfolding rounded_3dp_def round3_def
  using round_half_even_near[of "x * 1000"] by blast

subsection \<open>The time stamp\<close>

lemma zfill_digits:
  assumes "0 < k" and "n < 10 ^ k"
  shows "digits k (zfill k (str_nat n))"
proof -
  have "length (str_nat n) \<le> k" using assms by (rule str_nat_length)
  moreover have "is_digit CHR ''0''" by (simp add: is_digit_def)
  ultimately show ?thesis
    using str_nat_digits[of n] by (auto simp: digits_def zfill_def list_all_iff)
qed

lemma zfill_reads_as:
  assumes "0 < k" and "n < 10 ^ k"
  shows "reads_as k (zfill k (str_nat n)) n"
  using zfill_digits[OF assms]
  by (simp add: reads_as_def zfill_def nat_of_digits_zeros nat_of_digits_str_nat)

lemma isoformat_iso8601:
  assumes "valid_datetime dt"
  shows "iso8601_utc dt (isoformat dt @ ''Z'')"
proof -
  from assms have d: "reads_as 4 (zfill 4 (str_nat (year dt))) (year dt)"
    "reads_as 2 (zfill 2 (str_nat (month dt))) (month dt)"
    "reads_as 2 (zfill 2 (str_nat (day dt))) (day dt)"
    "reads_as 2 (zfill 2 (str_nat (hour dt))) (hour dt)"
    "reads_as 2 (zfill 2 (str_nat (minute dt))) (minute dt)"
    "reads_as 2 (zfill 2 (str_nat (second dt))) (second dt)"
    "reads_as 6 (zfill 6 (str_nat (microsecond dt))) (microsecond dt)"
    by (auto simp: valid_datetime_def intro!: zfill_reads_as)
  define frac where "frac = (if microsecond dt = 0 then [] else ''.'' @ zfill 6 (str_nat (microsecond dt)))"
  have f: "(microsecond dt = 0 \<and> frac = []) \<or>
           (microsecond dt \<noteq> 0 \<and> (\<exists>f. frac = ''.'' @ f \<and> reads_as 6 f (microsecond dt)))"
    using d(7) by (auto simp: frac_def)
  have "isoformat dt @ ''Z'' =
      zfill 4 (str_nat (year dt)) @ ''-'' @ zfill 2 (str_nat (month dt)) @ ''-'' @
      zfill 2 (str_nat (day dt)) @ ''T'' @ zfill 2 (str_nat (hour dt)) @ '':'' @
      zfill 2 (str_nat (minute dt)) @ '':'' @ zfill 2 (str_nat (second dt)) @ frac @ ''Z''"
    by (simp add: isoformat_def frac_def)
  with d f show ?thesis unfolding iso8601_utc_def by blast
qed

text \<open>
  Claim C7.  The serialisation of a run summary, whose start is a naive UTC time as
  \<open>datetime.utcnow()\<close> gives it, is a dictionary of five entries: \<open>total_sent\<close>, the
  integer; \<open>elapsed_s\<close>, the elapsed time rounded to three decimals; \<open>status_counts\<close>,
  the counts under the text of each status key; \<open>started_at\<close>, the ISO 8601 time stamp
  of the start of this summary, ending in the UTC designator \<open>Z\<close>; and \<open>latency\<close>, which
  is exactly \<open>{count: 0}\<close> when the latency count is zero and otherwise holds the count
  with the average, minimum and maximum, each rounded to three decimals.
\<close>

theorem to_dict_record:
  assumes "valid_datetime (started_at self)"
    and "distinct (map fst (status_counts self))"
  shows "\<exists>e ts lat.
     to_dict self =
       JDict [(''total_sent'', JInt (total_sent self)),
              (''elapsed_s'', JFloat e),
              (''status_counts'',
                 JDict (map (\<lambda>(k, v). (str_status_key k, JInt v)) (status_counts self))),
              (''started_at'', JStr ts),
              (''latency'', lat)] \<and>
     rounded_3dp (elapsed_s self) e \<and>
     iso8601_utc (started_at self) ts \<and>
     (count (latencies self) = 0 \<longrightarrow> lat = JDict [(''count'', JInt 0)]) \<and>
     (count (latencies self) \<noteq> 0 \<longrightarrow>
        (\<exists>a lo hi.
           lat = JDict [(''count'', JInt (count (latencies self))),
                        (''average_ms'', JFloat a),
                        (''min_ms'', JFloat lo),
                        (''max_ms'', JFloat hi)] \<and>
           rounded_3dp (or_zero (mean (latencies self))) a \<and>
           rounded_3dp (or_zero (min_ms (latencies self))) lo \<and>
           rounded_3dp (or_zero (max_ms (latencies self))) hi))"
proof -
  define lat where "lat =
     (if count (latencies self) \<noteq> 0
      then JDict [(''count'', JInt (count (latencies self))),
                  (''average_ms'', JFloat (round3 (or_zero (mean (latencies self))))),
                  (''min_ms'', JFloat (round3 (or_zero (min_ms (latencies self))))),
                  (''max_ms'', JFloat (round3 (or_zero (max_ms (latencies self)))))]
      else JDict [(''count'', JInt 0)])"
  have "to_dict self =
       JDict [(''total_sent'', JInt (total_sent self)),
              (''elapsed_s'', JFloat (round3 (elapsed_s self))),
              (''status_counts'',
                 JDict (map (\<lambda>(k, v). (str_status_key k, JInt v)) (status_counts self))),
              (''started_at'', JStr (isoformat (started_at self) @ ''Z'')),
              (''latency'', lat)]"
    by (simp add: to_dict_def lat_def status_counts_dict_distinct[OF assms(2)])
  moreover have "count (latencies self) = 0 \<longrightarrow> lat = JDict [(''count'', JInt 0)]"
    by (simp add: lat_def)
  moreover have "count (latencies self) \<noteq> 0 \<longrightarrow>
        (\<exists>a lo hi.
           lat = JDict [(''count'', JInt (count (latencies self))),
                        (''average_ms'', JFloat a),
                        (''min_ms'', JFloat lo),
                        (''max_ms'', JFloat hi)] \<and>
           rounded_3dp (or_zero (mean (latencies self))) a \<and>
           rounded_3dp (or_zero (min_ms (latencies self))) lo \<and>
           rounded_3dp (or_zero (max_ms (latencies self))) hi)"
    using round3_rounded by (auto simp: lat_def)
  ultimately show ?thesis
    using round3_rounded[of "elapsed_s self"] isoformat_iso8601[OF assms(1)] by blast
qed

text \<open>
  The summary of six requests answered with status 200 in 10 ms each, after
  \<open>2049 / 1024 = 2.0009765625\<close> seconds, started at 09:30:00.000007 on 17 May 2024:
  the elapsed time is written as the float nearest to \<open>2.001\<close>.
\<close>

theorem to_dict_record_witness:
  "valid_datetime (started_at summary_example) \<and>
   distinct (map fst (status_counts summary_example)) \<and>
   to_dict summary_example =
     JDict [(''total_sent'', JInt 6),
            (''elapsed_s'', JFloat (4505851427184181 / 2251799813685248)),
            (''status_counts'', JDict [(''200'', JInt 6)]),
            (''started_at'', JStr ''2024-05-17T09:30:00.000007Z''),
            (''latency'', JDict [(''count'', JInt 6), (''average_ms'', JFloat 10),
                                (''min_ms'', JFloat 10), (''max_ms'', JFloat 10)])] \<and>
   rounded_3dp (elapsed_s summary_example) (4505851427184181 / 2251799813685248) \<and>
   iso8601_utc (started_at summary_example) ''2024-05-17T09:30:00.000007Z''"
proof -
  have h1: "valid_datetime (started_at summary_example)"
    by (simp add: summary_example_def example_start_def valid_datetime_def)
  have h2: "distinct (map fst (status_counts summary_example))"
    by (simp add: summary_example_def)
  have ev: "to_dict summary_example =
     JDict [(''total_sent'', JInt 6),
            (''elapsed_s'', JFloat (4505851427184181 / 2251799813685248)),
            (''status_counts'', JDict [(''200'', JInt 6)]),
            (''started_at'', JStr ''2024-05-17T09:30:00.000007Z''),
            (''latency'', JDict [(''count'', JInt 6), (''average_ms'', JFloat 10),
                                (''min_ms'', JFloat 10), (''max_ms'', JFloat 10)])]"
    by code_simp
  from to_dict_record[OF h1 h2] obtain e ts lat where
    "to_dict summary_example =
       JDict [(''total_sent'', JInt (total_sent summary_example)),
              (''elapsed_s'', JFloat e),
              (''status_counts'',
                 JDict (map (\<lambda>(k, v). (str_status_key k, JInt v)) (status_counts summary_example))),
              (''started_at'', JStr ts),
              (''latency'', lat)]"
    and r: "rounded_3dp (elapsed_s summary_example) e"
      "iso8601_utc (started_at summary_example) ts"
    by blast
  with ev have "e = 4505851427184181 / 2251799813685248"
    "ts = ''2024-05-17T09:30:00.000007Z''" by simp_all
  with r h1 h2 ev show ?thesis by simp
qed

section \<open>Properties of the JSON text\<close>

subsection \<open>Strings\<close>

lemma hex_val_hex_digit: "n < 16 \<Longrightarrow> hex_val (hex_digit n) = Some n"
  by (auto simp: hex_val_def hex_digit_def Let_def)

lemma hex_val_zero: "hex_val CHR ''0'' = Some 0"
  by (simp add: hex_val_def)

lemma hex4_control:
  assumes "(of_char c :: nat) < 32"
  shows "hex4 CHR ''0'' CHR ''0'' (hex_digit ((of_char c :: nat) div 16))
           (hex_digit ((of_char c :: nat) mod 16)) = Some c"
proof -
  have "(of_char c :: nat) div 16 < 16" using assms by simp
  moreover have "(of_char c :: nat) mod 16 < 16" by simp
  moreover have "char_of (16 * ((of_char c :: nat) div 16) + (of_char c :: nat) mod 16) = c"
    by simp
  ultimately show ?thesis
    by (simp add: hex4_def hex_val_hex_digit hex_val_zero)
qed

lemma scan_string_escape:
  assumes "X \<noteq> []"
  shows "scan_string (escape_char c @ X) = map_option (\<lambda>(s, r). (c # s, r)) (scan_string X)"
proof -
  obtain x xs where X: "X = x # xs" using assms by (cases X) auto
  consider (quote) "c = CHR 0x22" | (bs) "c = CHR 0x5C" | (nl) "c = CHR 0x0A" | (cr) "c = CHR 0x0D"
    | (tab) "c = CHR 0x09" | (b) "c = CHR 0x08" | (f) "c = CHR 0x0C"
    | (ctl) "c \<noteq> CHR 0x22" "c \<noteq> CHR 0x5C" "c \<noteq> CHR 0x0A" "c \<noteq> CHR 0x0D" "c \<noteq> CHR 0x09"
        "c \<noteq> CHR 0x08" "c \<noteq> CHR 0x0C" "(of_char c :: nat) < 32"
    | (plain) "c \<noteq> CHR 0x22" "c \<noteq> CHR 0x5C" "\<not> (of_char c :: nat) < 32"
    by force
  then show ?thesis
  proof cases
    case ctl
    then have "escape_char c = [CHR 0x5C, CHR ''u'', CHR ''0'', CHR ''0'',
              hex_digit ((of_char c :: nat) div 16), hex_digit ((of_char c :: nat) mod 16)]"
      by (simp add: escape_char_def)
    then show ?thesis using hex4_control[OF ctl(8)] by (simp add: X)
  next
    case plain
    then have "escape_char c = [c]"
      by (auto simp: escape_char_def)
    then show ?thesis using plain by (simp add: X)
  qed (simp_all add: escape_char_def unescape_def X)
qed

lemma scan_string_body:
  "scan_string (concat (map escape_char s) @ CHR 0x22 # rest) = Some (s, rest)"
proof (induction s)
  case Nil
  then show ?case by (cases rest) simp_all
next
  case (Cons c s)
  have "scan_string (escape_char c @ (concat (map escape_char s) @ CHR 0x22 # rest))
      = map_option (\<lambda>(s, r). (c # s, r)) (scan_string (concat (map escape_char s) @ CHR 0x22 # rest))"
    by (rule scan_string_escape) simp
  with Cons show ?case by simp
qed

lemma encode_str_tl: "tl (encode_str s) = concat (map escape_char s) @ [CHR 0x22]"
  by (simp add: encode_str_def)

lemma scan_string_encode: "scan_string (tl (encode_str s) @ rest) = Some (s, rest)"
  using scan_string_body[of s rest] by (simp add: encode_str_tl)

subsection \<open>Numbers\<close>

lemma is_digit_zero: "is_digit CHR ''0''"
  by (simp add: is_digit_def)

lemma char_of_48: "char_of (48 :: nat) = CHR ''0''"
proof -
  have "char_of (of_char CHR ''0'' :: nat) = CHR ''0''" by (rule char_of_char)
  then show ?thesis by simp
qed

lemma str_nat_zero: "str_nat 0 = ''0''"
  by (subst str_nat.simps) (simp add: char_of_48)

lemma str_nat_hd_nonzero: "0 < n \<Longrightarrow> hd (str_nat n) \<noteq> CHR ''0''"
proof (induction n rule: str_nat.induct)
  case (1 n)
  show ?case
  proof (cases "n < 10")
    case True
    have "char_of (48 + n) \<noteq> CHR ''0''"
    proof
      assume "char_of (48 + n) = CHR ''0''"
      then have "(of_char (char_of (48 + n)) :: nat) = of_char CHR ''0''" by simp
      with True 1(2) show False by (simp add: of_char_digit)
    qed
    with True show ?thesis by (subst str_nat.simps) simp
  next
    case False
    then have "0 < n div 10" by simp
    with 1(1)[OF False] have "hd (str_nat (n div 10)) \<noteq> CHR ''0''" by simp
    with False str_nat_nonempty[of "n div 10"] show ?thesis
      by (subst str_nat.simps) simp
  qed
qed

lemma takeWhile_digits:
  assumes "list_all is_digit ds" and "rest = [] \<or> \<not> is_digit (hd rest)"
  shows "takeWhile is_digit (ds @ rest) = ds" and "dropWhile is_digit (ds @ rest) = rest"
proof -
  from assms(1) have a: "\<And>x. x \<in> set ds \<Longrightarrow> is_digit x" by (simp add: list_all_iff)
  from assms(2) have t: "takeWhile is_digit rest = []" and d: "dropWhile is_digit rest = rest"
    by (cases rest; auto)+
  from a t show "takeWhile is_digit (ds @ rest) = ds" by (simp add: takeWhile_append2)
  from a d show "dropWhile is_digit (ds @ rest) = rest" by (simp add: dropWhile_append2)
qed

lemma scan_int_part_digits:
  assumes "list_all is_digit ds" and "ds \<noteq> []" and "ds = ''0'' \<or> hd ds \<noteq> CHR ''0''"
    and "rest = [] \<or> \<not> is_digit (hd rest)"
  shows "scan_int_part (ds @ rest) = Some (ds, rest)"
proof (cases "ds = ''0''")
  case True
  then show ?thesis by (simp add: scan_int_part_def)
next
  case False
  with assms(2,3) obtain c cs where ds: "ds = c # cs" "c \<noteq> CHR ''0''" by (cases ds) auto
  with assms(1) have "is_digit c" by simp
  with ds takeWhile_digits[OF assms(1,4)] show ?thesis
    by (simp add: scan_int_part_def)
qed

lemma number_end_simps:
  "number_end rest \<Longrightarrow> rest = [] \<or> \<not> is_digit (hd rest)"
  "number_end rest \<Longrightarrow> scan_frac rest = ([], rest)"
  "number_end rest \<Longrightarrow> scan_exp rest = None"
  by (cases rest; cases "tl rest"; auto simp: number_end_def scan_frac_def scan_exp_def)+

lemma str_nat_int_part:
  "rest = [] \<or> \<not> is_digit (hd rest) \<Longrightarrow> scan_int_part (str_nat n @ rest) = Some (str_nat n, rest)"
proof (rule scan_int_part_digits)
  show "list_all is_digit (str_nat n)" by (rule str_nat_digits)
  show "str_nat n \<noteq> []" by (rule str_nat_nonempty)
  show "str_nat n = ''0'' \<or> hd (str_nat n) \<noteq> CHR ''0''"
    using str_nat_zero str_nat_hd_nonzero[of n] by (cases "n = 0") auto
qed

lemma str_nat_not_minus: "hd (str_nat n) \<noteq> CHR ''-''"
proof -
  have "\<not> is_digit CHR ''-''" by (simp add: is_digit_def)
  with str_nat_hd_digit[of n] show ?thesis by auto
qed

lemma parse_number_int:
  assumes "number_end rest"
  shows "parse_number (str_int n @ rest) = Some (JInt n, rest)"
proof (cases "n < 0")
  case True
  then have s: "str_int n @ rest = CHR ''-'' # str_nat (nat (- n)) @ rest"
    by (simp add: str_int_def)
  have "scan_int_part (str_nat (nat (- n)) @ rest) = Some (str_nat (nat (- n)), rest)"
    using number_end_simps(1)[OF assms] by (rule str_nat_int_part)
  with True show ?thesis
    unfolding s parse_number_def
    by (simp add: number_end_simps(2,3)[OF assms] nat_of_digits_str_nat)
next
  case False
  then have s: "str_int n @ rest = str_nat (nat n) @ rest"
    by (simp add: str_int_def)
  have ne: "str_nat (nat n) @ rest \<noteq> []" using str_nat_nonempty by simp
  have hd: "hd (str_nat (nat n) @ rest) \<noteq> CHR ''-''"
    using str_nat_not_minus[of "nat n"] str_nat_nonempty[of "nat n"] by simp
  have "scan_int_part (str_nat (nat n) @ rest) = Some (str_nat (nat n), rest)"
    using number_end_simps(1)[OF assms] by (rule str_nat_int_part)
  with False ne hd show ?thesis
    unfolding s parse_number_def
    by (simp add: number_end_simps(2,3)[OF assms] nat_of_digits_str_nat)
qed

lemma str_nat_length_gt: "1 < length (str_nat n) \<Longrightarrow> 0 < n"
  by (subst (asm) str_nat.simps) (auto split: if_splits)

lemma scan_frac_digits:
  assumes "list_all is_digit fp" and "fp \<noteq> []" and "rest = [] \<or> \<not> is_digit (hd rest)"
  shows "scan_frac (CHR ''.'' # fp @ rest) = (fp, rest)"
proof -
  from assms(2) obtain d ds where fp: "fp = d # ds" by (cases fp) auto
  with assms(1) have "is_digit d" by simp
  with fp takeWhile_digits[OF assms(1,3)] show ?thesis
    by (simp add: scan_frac_def)
qed

text \<open>The parts of a decimal text.\<close>

lemma decimal_parts:
  assumes "0 < m"
    and ds_def: "ds = zfill (Suc m) (str_nat a)"
    and ip_def: "ip = take (length ds - m) ds"
    and fp_def: "fp = drop (length ds - m) ds"
  shows "list_all is_digit ip" "list_all is_digit fp" "ip \<noteq> []" "length fp = m"
    "ip = ''0'' \<or> hd ip \<noteq> CHR ''0''" "nat_of_digits (ip @ fp) = a"
proof -
  have dig: "list_all is_digit ds"
    using str_nat_digits[of a] is_digit_zero
    by (auto simp: ds_def zfill_def list_all_iff)
  have len: "Suc m \<le> length ds"
    by (simp add: ds_def zfill_def)
  from dig show "list_all is_digit ip" "list_all is_digit fp"
    by (auto simp: ip_def fp_def list_all_iff dest: in_set_takeD in_set_dropD)
  from len show "ip \<noteq> []" "length fp = m"
    by (auto simp: ip_def fp_def)
  have "ip @ fp = ds" by (simp add: ip_def fp_def)
  then show "nat_of_digits (ip @ fp) = a"
    by (simp add: ds_def zfill_def nat_of_digits_zeros nat_of_digits_str_nat)
  show "ip = ''0'' \<or> hd ip \<noteq> CHR ''0''"
  proof (cases "length (str_nat a) \<le> m")
    case True
    then have "ds = CHR ''0'' # replicate (m - length (str_nat a)) CHR ''0'' @ str_nat a"
      by (simp add: ds_def zfill_def Suc_diff_le)
    moreover from True have "length ds = Suc m"
      by (simp add: ds_def zfill_def)
    ultimately have "ip = ''0''" by (simp add: ip_def)
    then show ?thesis by simp
  next
    case False
    then have ds: "ds = str_nat a" by (simp add: ds_def zfill_def)
    from False assms(1) have "1 < length (str_nat a)" by simp
    then have "0 < a" by (rule str_nat_length_gt)
    then have "hd (str_nat a) \<noteq> CHR ''0''" by (rule str_nat_hd_nonzero)
    moreover from len have "hd ip = hd ds"
      by (cases ds) (auto simp: ip_def take_Suc_conv_app_nth Suc_diff_le)
    ultimately show ?thesis using ds by simp
  qed
qed

lemma parse_number_decimal:
  assumes "0 < m" and "number_end rest"
  shows "parse_number (decimal_str k m @ rest) = Some (JFloat (fl (of_int k / 10 ^ m)), rest)"
proof -
  define ds where "ds = zfill (Suc m) (str_nat (nat \<bar>k\<bar>))"
  define ip where "ip = take (length ds - m) ds"
  define fp where "fp = drop (length ds - m) ds"
  note parts = decimal_parts[OF assms(1) ds_def ip_def fp_def]
  have nd: "rest = [] \<or> \<not> is_digit (hd rest)" using assms(2) by (rule number_end_simps)
  have not_dot: "\<not> is_digit CHR ''.''" by (simp add: is_digit_def)
  have ipart: "scan_int_part (ip @ CHR ''.'' # fp @ rest) = Some (ip, CHR ''.'' # fp @ rest)"
    using parts(1,3,5) not_dot by (intro scan_int_part_digits) simp_all
  have fpart: "scan_frac (CHR ''.'' # fp @ rest) = (fp, rest)"
    using parts(2,4) assms(1) nd by (intro scan_frac_digits) auto
  have fpne: "fp \<noteq> []" using parts(4) assms(1) by auto
  have hd_ip: "hd (ip @ CHR ''.'' # fp @ rest) \<noteq> CHR ''-''"
  proof -
    have "\<not> is_digit CHR ''-''" by (simp add: is_digit_def)
    moreover from parts(1,3) have "is_digit (hd ip)" by (cases ip) auto
    ultimately show ?thesis using parts(3) by auto
  qed
  show ?thesis
  proof (cases "k < 0")
    case True
    then have s: "decimal_str k m @ rest = CHR ''-'' # ip @ CHR ''.'' # fp @ rest"
      by (simp add: decimal_str_def Let_def ds_def ip_def fp_def)
    from True have "- int (nat \<bar>k\<bar>) = k" by simp
    with True show ?thesis
      unfolding s parse_number_def
      by (simp add: ipart fpart fpne number_end_simps(3)[OF assms(2)] parts(4,6))
  next
    case False
    then have s: "decimal_str k m @ rest = ip @ CHR ''.'' # fp @ rest"
      by (simp add: decimal_str_def Let_def ds_def ip_def fp_def)
    from False have k0: "0 \<le> k" "\<bar>k\<bar> = k" by simp_all
    with hd_ip parts(3) show ?thesis
      unfolding s parse_number_def
      by (simp add: ipart fpart fpne number_end_simps(3)[OF assms(2)] parts(4,6))
  qed
qed

lemma repr_decimal_Some:
  assumes "repr_decimal x = Some (k, m)"
  shows "0 < m" and "fl (of_int k / 10 ^ m) = x"
proof -
  from assms obtain m' where f: "find (reads_back x) [1..<21] = Some m'"
    and km: "k = round_half_even (x * 10 ^ m')" "m = m'"
    by (auto simp: repr_decimal_def split: if_splits)
  from f have "reads_back x m'" "m' \<in> set [1..<21]"
    by (auto simp: find_Some_iff)
  with km show "0 < m" and "fl (of_int k / 10 ^ m) = x"
    by (auto simp: reads_back_def)
qed

lemma parse_number_float:
  assumes "repr_decimal x \<noteq> None" and "number_end rest"
  shows "parse_number (float_repr x @ rest) = Some (JFloat x, rest)"
proof -
  from assms(1) obtain k m where km: "repr_decimal x = Some (k, m)" by auto
  from repr_decimal_Some[OF km] parse_number_decimal[OF _ assms(2), of m k] km
  show ?thesis by (simp add: float_repr_def)
qed

lemma decimal_str_hd:
  assumes "0 < m"
  shows "decimal_str k m \<noteq> []" and "hd (decimal_str k m) = CHR ''-'' \<or> is_digit (hd (decimal_str k m))"
proof -
  define ds where "ds = zfill (Suc m) (str_nat (nat \<bar>k\<bar>))"
  define ip where "ip = take (length ds - m) ds"
  note parts = decimal_parts[OF assms(1) ds_def ip_def refl]
  from parts(1,3) have "is_digit (hd ip)" by (cases ip) auto
  with parts(3) show "decimal_str k m \<noteq> []"
    and "hd (decimal_str k m) = CHR ''-'' \<or> is_digit (hd (decimal_str k m))"
    by (auto simp: decimal_str_def Let_def ds_def ip_def)
qed

subsection \<open>Values\<close>

lemma skip_ws_append:
  assumes "list_all json_ws w" and "s = [] \<or> \<not> json_ws (hd s)"
  shows "skip_ws (w @ s) = s"
proof -
  from assms(1) have "\<And>x. x \<in> set w \<Longrightarrow> json_ws x" by (simp add: list_all_iff)
  then have "dropWhile json_ws (w @ s) = dropWhile json_ws s"
    by (simp add: dropWhile_append2)
  also from assms(2) have "dropWhile json_ws s = s" by (cases s) auto
  finally show ?thesis by (simp add: skip_ws_def)
qed

lemma skip_ws_id: "s = [] \<or> \<not> json_ws (hd s) \<Longrightarrow> skip_ws s = s"
  using skip_ws_append[of "[]" s] by simp

lemma indent_ws: "list_all json_ws (indent lvl)"
  by (simp add: indent_def json_ws_def list_all_iff)

lemma eat_simps:
  "eat c (c # r) = Some r"
  "x \<noteq> c \<Longrightarrow> eat c (x # r) = None"
  by (simp_all add: eat_def)

lemma not_ws_chars:
  "\<not> json_ws CHR 0x22" "\<not> json_ws CHR ''{''" "\<not> json_ws CHR ''}''" "\<not> json_ws CHR '':''"
  "\<not> json_ws CHR '',''" "\<not> json_ws CHR ''-''"
  by (simp_all add: json_ws_def)

lemma digit_not_ws: "is_digit c \<Longrightarrow> \<not> json_ws c"
  by (auto simp: is_digit_def json_ws_def)

lemma digit_not_brace: "is_digit c \<Longrightarrow> c \<noteq> CHR ''{'' \<and> c \<noteq> CHR 0x22"
  by (auto simp: is_digit_def)

text \<open>The first character of the text of a scalar: a minus sign or a digit.\<close>

lemma str_int_hd:
  "str_int n \<noteq> []" "hd (str_int n) = CHR ''-'' \<or> is_digit (hd (str_int n))"
  using str_nat_nonempty[of "nat n"] str_nat_hd_digit[of "nat n"]
  by (auto simp: str_int_def)

lemma float_repr_hd:
  assumes "repr_decimal x \<noteq> None"
  shows "float_repr x \<noteq> []" "hd (float_repr x) = CHR ''-'' \<or> is_digit (hd (float_repr x))"
proof -
  from assms obtain k m where km: "repr_decimal x = Some (k, m)" by auto
  from repr_decimal_Some(1)[OF km] decimal_str_hd[of m k] km
  show "float_repr x \<noteq> []" "hd (float_repr x) = CHR ''-'' \<or> is_digit (hd (float_repr x))"
    by (simp_all add: float_repr_def)
qed

lemma parse_value_number:
  assumes "s \<noteq> []" and "hd s = CHR ''-'' \<or> is_digit (hd s)"
  shows "parse_value (s @ rest) = parse_number (s @ rest)"
proof -
  from assms obtain c cs where s: "s = c # cs" "c = CHR ''-'' \<or> is_digit c" by (cases s) auto
  then have "c \<noteq> CHR ''{''" "c \<noteq> CHR 0x22" using digit_not_brace[of c] by auto
  with s show ?thesis
    by (simp add: parse_value_def parse_scalar_def eat_def)
qed

lemma parse_value_str: "parse_value (encode_str s @ rest) = Some (JStr s, rest)"
proof -
  have e: "encode_str s @ rest = CHR 0x22 # (concat (map escape_char s) @ CHR 0x22 # rest)"
    by (simp add: encode_str_def)
  show ?thesis
    unfolding e by (simp add: parse_value_def parse_scalar_def eat_def scan_string_body)
qed

lemma dumps_hd:
  assumes "json_ok v"
  shows "dumps lvl v \<noteq> []" "\<not> json_ws (hd (dumps lvl v))"
proof -
  have "dumps lvl v \<noteq> [] \<and> \<not> json_ws (hd (dumps lvl v))"
  proof (cases v)
    case (JInt n)
    with str_int_hd[of n] show ?thesis using digit_not_ws not_ws_chars by auto
  next
    case (JFloat x)
    with assms float_repr_hd[of x] show ?thesis using digit_not_ws not_ws_chars by auto
  next
    case (JStr s)
    then show ?thesis using not_ws_chars by (simp add: encode_str_def)
  next
    case (JDict kvs)
    then show ?thesis using not_ws_chars by simp
  qed
  then show "dumps lvl v \<noteq> []" "\<not> json_ws (hd (dumps lvl v))" by simp_all
qed

lemma dumps_items_hd:
  "kvs \<noteq> [] \<Longrightarrow> dumps_items lvl kvs = CHR 0x22 # tl (dumps_items lvl kvs)"
  by (cases kvs) (auto simp: encode_str_def)

text \<open>The decoder of the entries, with the value read by \<open>parse_value\<close>.\<close>

lemma parse_members_unfold:
  "parse_members acc s =
     Option.bind (scan_string s) (\<lambda>(k, s1).
     Option.bind (eat CHR '':'' (skip_ws s1)) (\<lambda>s2.
     Option.bind (parse_value (skip_ws s2))
       (\<lambda>(v, s3).
          case eat CHR ''}'' (skip_ws s3) of
            Some s4 \<Rightarrow> Some (JDict (AList.update k v acc), s4)
          | None \<Rightarrow>
              Option.bind (eat CHR '','' (skip_ws s3)) (\<lambda>s4.
              Option.bind (eat CHR 0x22 (skip_ws s4)) (\<lambda>s5.
                parse_members (AList.update k v acc) s5)))))"
  by (subst parse_members.simps) (simp add: parse_value_def)

lemma number_end_chars:
  "number_end (CHR '','' # s)" "number_end (CHR ''}'' # s)" "number_end (CHR 0x0A # s)"
  "number_end []"
  by (simp_all add: number_end_def is_digit_def)

lemma number_end_indent: "number_end (indent lvl @ s)"
  by (simp add: indent_def number_end_chars)

lemma dumps_round_trip:
  "json_ok v \<Longrightarrow> number_end rest \<Longrightarrow> parse_value (dumps lvl v @ rest) = Some (v, rest)"
  "kvs \<noteq> [] \<Longrightarrow> list_all (\<lambda>kv. json_ok (snd kv)) kvs \<Longrightarrow> distinct (map fst kvs) \<Longrightarrow>
     fst ` set acc \<inter> fst ` set kvs = {} \<Longrightarrow>
     parse_members acc (tl (dumps_items lvl kvs) @ indent l0 @ CHR ''}'' # rest)
       = Some (JDict (acc @ kvs), rest)"
proof (induction lvl v and lvl kvs arbitrary: rest and acc rest l0 rule: dumps_dumps_items.induct)
  case (1 lvl n)
  from parse_value_number[OF str_int_hd, of n rest] parse_number_int[OF 1(2), of n]
  show ?case by simp
next
  case (2 lvl x)
  then have d: "repr_decimal x \<noteq> None" by simp
  from parse_value_number[OF float_repr_hd[OF d], of rest] parse_number_float[OF d 2(2)]
  show ?case by simp
next
  case (3 lvl s)
  show ?case by (simp add: parse_value_str)
next
  case (4 lvl kvs)
  show ?case
  proof (cases "kvs = []")
    case True
    then show ?thesis
      by (simp add: parse_value_def eat_def skip_ws_def json_ws_def)
  next
    case False
    from 4(2) have ok: "list_all (\<lambda>kv. json_ok (snd kv)) kvs" "distinct (map fst kvs)"
      by simp_all
    have items: "dumps_items (Suc lvl) kvs = CHR 0x22 # tl (dumps_items (Suc lvl) kvs)"
      using False by (rule dumps_items_hd)
    have "dumps lvl (JDict kvs) @ rest =
        CHR ''{'' # indent (Suc lvl) @ CHR 0x22 # (tl (dumps_items (Suc lvl) kvs) @ indent lvl @ CHR ''}'' # rest)"
      using False items by simp
    moreover have "skip_ws (indent (Suc lvl) @ CHR 0x22 # (tl (dumps_items (Suc lvl) kvs) @ indent lvl @ CHR ''}'' # rest))
        = CHR 0x22 # (tl (dumps_items (Suc lvl) kvs) @ indent lvl @ CHR ''}'' # rest)"
      using indent_ws not_ws_chars by (intro skip_ws_append) simp_all
    moreover have "parse_members [] (tl (dumps_items (Suc lvl) kvs) @ indent lvl @ CHR ''}'' # rest)
        = Some (JDict ([] @ kvs), rest)"
      using False ok by (intro 4(1)) simp_all
    ultimately show ?thesis
      by (simp add: parse_value_def eat_def)
  qed
next
  case (5 lvl)
  then show ?case by simp
next
  case (6 lvl k v kvs)
  from 6(4) have okv: "json_ok v" and oks: "list_all (\<lambda>kv. json_ok (snd kv)) kvs" by simp_all
  from 6(5) have dk: "k \<notin> fst ` set kvs" and ds: "distinct (map fst kvs)" by auto
  from 6(6) have fresh: "k \<notin> fst ` set acc" by auto
  define tail where "tail = (if kvs = [] then [] else '','' @ indent lvl @ dumps_items lvl kvs)
      @ indent l0 @ CHR ''}'' # rest"
  have txt0: "tl (dumps_items lvl ((k, v) # kvs)) @ indent l0 @ CHR ''}'' # rest
      = tl (encode_str k) @ CHR '':'' # CHR '' '' # dumps lvl v @ tail"
    by (simp add: tail_def encode_str_def)
  have ne: "number_end tail"
    by (simp add: tail_def number_end_chars number_end_indent)
  have val: "parse_value (dumps lvl v @ tail) = Some (v, tail)"
    using okv ne by (rule 6(1))
  have sk1: "skip_ws (CHR '':'' # CHR '' '' # dumps lvl v @ tail) = CHR '':'' # CHR '' '' # dumps lvl v @ tail"
    using not_ws_chars by (intro skip_ws_id) simp
  have sk2: "skip_ws (CHR '' '' # dumps lvl v @ tail) = dumps lvl v @ tail"
    using skip_ws_append[of "'' ''" "dumps lvl v @ tail"] dumps_hd[OF okv, of lvl]
    by (simp add: json_ws_def)
  have upd: "AList.update k v acc = acc @ [(k, v)]" using fresh by (rule update_fresh)
  show ?case
  proof (cases "kvs = []")
    case True
    then have tail: "tail = indent l0 @ CHR ''}'' # rest" by (simp add: tail_def)
    have sk3: "skip_ws tail = CHR ''}'' # rest"
      unfolding tail using indent_ws not_ws_chars by (intro skip_ws_append) simp_all
    show ?thesis
      unfolding txt0
      by (subst parse_members_unfold)
         (simp add: scan_string_encode sk1 sk2 sk3 val eat_simps upd True)
  next
    case False
    have items: "dumps_items lvl kvs = CHR 0x22 # tl (dumps_items lvl kvs)"
      using False by (rule dumps_items_hd)
    have tail: "tail = CHR '','' # indent lvl @ CHR 0x22 # (tl (dumps_items lvl kvs) @ indent l0 @ CHR ''}'' # rest)"
      using False items by (simp add: tail_def)
    have sk3: "skip_ws tail = tail"
      unfolding tail using not_ws_chars by (intro skip_ws_id) simp
    have sk4: "skip_ws (indent lvl @ CHR 0x22 # (tl (dumps_items lvl kvs) @ indent l0 @ CHR ''}'' # rest))
        = CHR 0x22 # (tl (dumps_items lvl kvs) @ indent l0 @ CHR ''}'' # rest)"
      using indent_ws not_ws_chars by (intro skip_ws_append) simp_all
    have "fst ` set (acc @ [(k, v)]) \<inter> fst ` set kvs = {}"
      using 6(6) dk by auto
    then have rec: "parse_members (acc @ [(k, v)]) (tl (dumps_items lvl kvs) @ indent l0 @ CHR ''}'' # rest)
        = Some (JDict ((acc @ [(k, v)]) @ kvs), rest)"
      using False oks ds by (intro 6(2)) simp_all
    have e1: "eat CHR ''}'' tail = None" "eat CHR '','' tail = Some (indent lvl @ CHR 0x22 # (tl (dumps_items lvl kvs) @ indent l0 @ CHR ''}'' # rest))"
      unfolding tail by (simp_all add: eat_def)
    show ?thesis
      unfolding txt0
      by (subst parse_members_unfold)
         (simp add: scan_string_encode sk1 sk2 sk3 sk4 val eat_simps upd e1 rec)
  qed
qed

lemma json_round_trip: "json_ok v \<Longrightarrow> json_loads (json_dumps v) = Some v"
proof -
  assume ok: "json_ok v"
  have "skip_ws (dumps 0 v) = dumps 0 v"
    using dumps_hd[OF ok, of 0] by (intro skip_ws_id) simp
  moreover have "parse_value (dumps 0 v @ []) = Some (v, [])"
    using ok number_end_chars(4) by (rule dumps_round_trip(1))
  ultimately show ?thesis
    by (simp add: json_loads_def json_dumps_def skip_ws_def)
qed

subsection \<open>The rounding error of a float\<close>

lemma round_half_even_unique:
  assumes "\<bar>x - of_int k\<bar> < 1 / 2"
  shows "round_half_even x = k"
proof -
  have "\<bar>x - of_int (round_half_even x)\<bar> \<le> 1 / 2" by (rule round_half_even_near)
  with assms have "\<bar>real_of_int (round_half_even x) - real_of_int k\<bar> < 1" by linarith
  then have "\<bar>real_of_int (round_half_even x - k)\<bar> < 1" by simp
  then have "\<bar>round_half_even x - k\<bar> < 1" by linarith
  then show ?thesis by simp
qed

lemma ilog2_lower:
  assumes "0 < a"
  shows "2 powi (ilog2 a) \<le> a"
proof (cases "1 \<le> a")
  case True
  then have pos: "0 < \<lfloor>a\<rfloor>" by linarith
  from bitlen_bounds[OF pos] have b: "2 ^ nat (bitlen \<lfloor>a\<rfloor> - 1) \<le> \<lfloor>a\<rfloor>" by simp
  have ge: "0 \<le> bitlen \<lfloor>a\<rfloor> - 1"
    using pos by (simp add: bitlen_alt_def)
  have "(2::real) powi (bitlen \<lfloor>a\<rfloor> - 1) = 2 ^ nat (bitlen \<lfloor>a\<rfloor> - 1)"
    using ge by (simp add: power_int_def)
  also have "\<dots> = real_of_int (2 ^ nat (bitlen \<lfloor>a\<rfloor> - 1))" by simp
  also have "\<dots> \<le> real_of_int \<lfloor>a\<rfloor>" using b by (simp only: of_int_le_iff)
  also have "\<dots> \<le> a" by linarith
  finally show ?thesis using True by (simp add: ilog2_def)
next
  case False
  define n where "n = \<lceil>1 / a\<rceil> - 1"
  from False assms have "1 < 1 / a" by simp
  then have n1: "0 < n" unfolding n_def by linarith
  from bitlen_bounds[OF n1] have "n < 2 ^ nat (bitlen n)" by simp
  then have "\<lceil>1 / a\<rceil> \<le> 2 ^ nat (bitlen n)" by (simp add: n_def)
  then have c: "real_of_int \<lceil>1 / a\<rceil> \<le> real_of_int (2 ^ nat (bitlen n))"
    by (simp only: of_int_le_iff)
  have "1 / a \<le> real_of_int \<lceil>1 / a\<rceil>" by (rule le_of_int_ceiling)
  also note c
  also have "real_of_int (2 ^ nat (bitlen n)) = 2 ^ nat (bitlen n)" by simp
  finally have "1 / a \<le> 2 ^ nat (bitlen n)" .
  then have "1 \<le> 2 ^ nat (bitlen n) * a"
    using assms by (simp add: pos_divide_le_eq)
  then have "1 / 2 ^ nat (bitlen n) \<le> a"
    by (simp add: pos_divide_le_eq mult.commute)
  moreover have "(2::real) powi (- bitlen n) = 1 / 2 ^ nat (bitlen n)"
  proof -
    have "(2::real) powi (- bitlen n) = 1 / 2 powi (bitlen n)" by (rule power_int_minus_divide)
    also have "(2::real) powi (bitlen n) = 2 ^ nat (bitlen n)"
      using bitlen_nonneg[of n] by (simp add: power_int_def)
    finally show ?thesis .
  qed
  ultimately show ?thesis using False by (simp add: ilog2_def n_def)
qed

lemma fl_error: "\<bar>fl x - x\<bar> \<le> max (\<bar>x\<bar> / 2 ^ 53) (1 / 2 ^ 1075)"
proof (cases "x = 0")
  case True
  then show ?thesis by (simp add: fl_def)
next
  case False
  define e0 where "e0 = ilog2 \<bar>x\<bar>"
  define p :: real where "p = 2 powi (max e0 (- 1022) - 52)"
  have ppos: "0 < p" by (simp add: p_def)
  have flx: "fl x = of_int (round_half_even (x / p)) * p"
    using False by (simp add: fl_def Let_def p_def e0_def)
  have "\<bar>fl x - x\<bar> = \<bar>of_int (round_half_even (x / p)) - x / p\<bar> * p"
  proof -
    have "fl x - x = (of_int (round_half_even (x / p)) - x / p) * p"
      using ppos by (simp add: flx field_simps)
    then show ?thesis using ppos by (simp add: abs_mult)
  qed
  also have "\<dots> \<le> (1 / 2) * p"
    using round_half_even_near[of "x / p"] ppos
    by (intro mult_right_mono) (simp_all add: abs_minus_commute)
  finally have err: "\<bar>fl x - x\<bar> \<le> p / 2" by simp
  have "p / 2 \<le> max (\<bar>x\<bar> / 2 ^ 53) (1 / 2 ^ 1075)"
  proof (cases "- 1022 \<le> e0")
    case True
    then have "p = 2 powi e0 / 2 powi 52"
      by (simp add: p_def max_def power_int_diff)
    also have "\<dots> \<le> \<bar>x\<bar> / 2 powi 52"
      using ilog2_lower[of "\<bar>x\<bar>"] False
      by (intro divide_right_mono) (simp_all add: e0_def)
    finally have "p / 2 \<le> \<bar>x\<bar> / 2 ^ 53" by simp
    then show ?thesis by simp
  next
    case False
    then have "p = 2 powi (- 1074)" by (simp add: p_def max_def)
    then have "p / 2 = 1 / 2 ^ 1075"
      by (simp add: power_int_minus_divide)
    then show ?thesis by simp
  qed
  with err show ?thesis by linarith
qed

text \<open>
  A number of magnitude at most \<open>10^12\<close>, rounded to three decimals, is a float whose
  \<open>repr\<close> has no exponent.
\<close>

lemma repr_decimal_round3:
  assumes "\<bar>x\<bar> \<le> 10 ^ 12"
  shows "repr_decimal (round3 x) \<noteq> None"
proof -
  define k where "k = round_half_even (x * 1000)"
  define q :: real where "q = of_int k / 1000"
  define y where "y = fl q"
  have y: "round3 x = y" by (simp add: round3_def y_def q_def k_def)
  have kx: "\<bar>x * 1000 - of_int k\<bar> \<le> 1 / 2"
    unfolding k_def by (rule round_half_even_near)
  have qk: "real_of_int k = q * 1000" by (simp add: q_def)
  from kx have qx: "\<bar>q - x\<bar> \<le> 1 / 2000" unfolding qk by arith
  with assms have qb: "\<bar>q\<bar> \<le> 10 ^ 12 + 1" by linarith
  have tiny: "(1::real) / 2 ^ 1075 \<le> 1 / 2 ^ 20"
    by (intro divide_left_mono power_increasing) simp_all
  have "\<bar>q\<bar> / 2 ^ 53 \<le> (10 ^ 12 + 1) / 2 ^ 53"
    using qb by (intro divide_right_mono) simp_all
  also have "\<dots> < (1::real) / 4000" by simp
  finally have e1: "\<bar>q\<bar> / 2 ^ 53 < 1 / 4000" .
  have "(1::real) / 2 ^ 20 < 1 / 4000" by simp
  with tiny have e2: "(1::real) / 2 ^ 1075 < 1 / 4000" by linarith
  from fl_error[of q] e1 e2 have err: "\<bar>y - q\<bar> < 1 / 4000"
    by (simp add: y_def max_def split: if_splits)
  from err have "\<bar>y * 1000 - of_int k\<bar> < 1 / 2" unfolding qk by arith
  then have rk: "round_half_even (y * 1000) = k" by (rule round_half_even_unique)
  have "reads_back y 3"
    using rk by (simp add: reads_back_def y_def q_def)
  then have "\<exists>m \<in> set [1..<21]. reads_back y m"
    by (intro bexI[of _ 3]) simp_all
  then have found: "find (reads_back y) [1..<21] \<noteq> None"
    by (simp only: find_None_iff) blast
  have range: "y = 0 \<or> (1 / 10 ^ 4 \<le> \<bar>y\<bar> \<and> \<bar>y\<bar> < 10 ^ 16)"
  proof (cases "k = 0")
    case True
    then show ?thesis by (simp add: y_def q_def fl_def)
  next
    case False
    then have "1 \<le> \<bar>k\<bar>" by linarith
    then have "1 \<le> \<bar>real_of_int k\<bar>" by linarith
    then have "1 / 1000 \<le> \<bar>q\<bar>" by (simp add: q_def)
    with err qb show ?thesis by (simp add: abs_if split: if_splits) 
  qed
  from found range show ?thesis
    by (auto simp: y repr_decimal_def)
qed

subsection \<open>The summary written and read back\<close>

lemma map_of_map_inj:
  assumes "\<And>a b. f a = f b \<Longrightarrow> a = b"
  shows "map_of (map (\<lambda>(k, v). (f k, g v)) c) (f k) = map_option g (map_of c k)"
  using assms by (induction c) auto

lemma json_ok_to_dict:
  assumes "\<bar>elapsed_s self\<bar> \<le> 10 ^ 12"
    and "\<bar>or_zero (mean (latencies self))\<bar> \<le> 10 ^ 12"
    and "\<bar>or_zero (min_ms (latencies self))\<bar> \<le> 10 ^ 12"
    and "\<bar>or_zero (max_ms (latencies self))\<bar> \<le> 10 ^ 12"
    and "distinct (map fst (status_counts self))"
  shows "json_ok (to_dict self)"
proof -
  have keys: "distinct (map fst (map (\<lambda>(k, v). (str_status_key k, JInt v)) (status_counts self)))"
  proof -
    have "map fst (map (\<lambda>(k, v). (str_status_key k, JInt v)) (status_counts self))
        = map str_status_key (map fst (status_counts self))"
      by (induction "status_counts self") (auto simp: case_prod_beta)
    moreover have "inj_on str_status_key (set (map fst (status_counts self)))"
      using str_status_key_inj by (auto intro: inj_onI)
    with assms(5) have "distinct (map str_status_key (map fst (status_counts self)))"
      unfolding distinct_map[of str_status_key "map fst (status_counts self)"] by blast
    ultimately show ?thesis by (simp only:)
  qed
  have vals: "list_all (\<lambda>kv. json_ok (snd kv))
      (map (\<lambda>(k, v). (str_status_key k, JInt v)) (status_counts self))"
    by (simp add: list_all_iff case_prod_beta)
  from keys vals have sc: "json_ok (JDict (status_counts_dict (status_counts self)))"
    by (simp add: status_counts_dict_distinct[OF assms(5)])
  have lat: "json_ok (if count (latencies self) \<noteq> 0
      then JDict [(''count'', JInt (count (latencies self))),
                  (''average_ms'', JFloat (round3 (or_zero (mean (latencies self))))),
                  (''min_ms'', JFloat (round3 (or_zero (min_ms (latencies self))))),
                  (''max_ms'', JFloat (round3 (or_zero (max_ms (latencies self)))))]
      else JDict [(''count'', JInt 0)])"
    using repr_decimal_round3[OF assms(2)] repr_decimal_round3[OF assms(3)]
      repr_decimal_round3[OF assms(4)]
    by simp
  from sc lat repr_decimal_round3[OF assms(1)] show ?thesis
    unfolding to_dict_def by (simp del: json_ok.simps(4) add: json_ok.simps(4)[of "[_, _, _, _, _]"])
qed


text \<open>
  Claim C8.  A run summary whose elapsed time and latency statistics are at most
  \<open>10^12\<close> in magnitude, written with \<open>save_json\<close> as the text of \<open>to_dict\<close> and read
  back with \<open>load_json\<close>, gives the record \<open>to_dict\<close> built: \<open>total_sent\<close> is the same
  integer, \<open>elapsed_s\<close> is the elapsed time rounded to three decimals, and
  \<open>status_counts\<close> has one entry for each status key, under the key's text, with the
  same count.
\<close>

theorem summary_round_trip:
  assumes "\<bar>elapsed_s self\<bar> \<le> 10 ^ 12"
    and "\<bar>or_zero (mean (latencies self))\<bar> \<le> 10 ^ 12"
    and "\<bar>or_zero (min_ms (latencies self))\<bar> \<le> 10 ^ 12"
    and "\<bar>or_zero (max_ms (latencies self))\<bar> \<le> 10 ^ 12"
    and "distinct (map fst (status_counts self))"
  shows "\<exists>loaded sc.
     load_json (save_json fs path (to_dict self)) path = Inr loaded \<and>
     loaded = to_dict self \<and>
     json_get loaded ''total_sent'' = Some (JInt (total_sent self)) \<and>
     json_get loaded ''elapsed_s'' = Some (JFloat (round3 (elapsed_s self))) \<and>
     json_get loaded ''status_counts'' = Some (JDict sc) \<and>
     length sc = length (status_counts self) \<and>
     (\<forall>k. map_of sc (str_status_key k) = map_option JInt (map_of (status_counts self) k))"
proof -
  define sc where "sc = map (\<lambda>(k, v). (str_status_key k, JInt v)) (status_counts self)"
  have "json_ok (to_dict self)" using assms by (rule json_ok_to_dict)
  then have "json_loads (json_dumps (to_dict self)) = Some (to_dict self)"
    by (rule json_round_trip)
  then have "load_json (save_json fs path (to_dict self)) path = Inr (to_dict self)"
    by (simp add: load_json_def save_json_def)
  moreover have "json_get (to_dict self) ''total_sent'' = Some (JInt (total_sent self))"
    and "json_get (to_dict self) ''elapsed_s'' = Some (JFloat (round3 (elapsed_s self)))"
    and "json_get (to_dict self) ''status_counts'' = Some (JDict sc)"
    by (simp_all add: to_dict_def sc_def status_counts_dict_distinct[OF assms(5)])
  moreover have "length sc = length (status_counts self)" by (simp add: sc_def)
  moreover have "map_of sc (str_status_key k) = map_option JInt (map_of (status_counts self) k)" for k
    unfolding sc_def using str_status_key_inj by (rule map_of_map_inj)
  ultimately show ?thesis by blast
qed

text \<open>The example summary, written to \<open>out.json\<close> in an empty store and read back.\<close>

theorem summary_round_trip_witness:
  "\<bar>elapsed_s summary_example\<bar> \<le> 10 ^ 12 \<and>
   distinct (map fst (status_counts summary_example)) \<and>
   load_json (save_json Map.empty ''out.json'' (to_dict summary_example)) ''out.json''
     = Inr (JDict [(''total_sent'', JInt 6),
                    (''elapsed_s'', JFloat (4505851427184181 / 2251799813685248)),
                    (''status_counts'', JDict [(''200'', JInt 6)]),
                    (''started_at'', JStr ''2024-05-17T09:30:00.000007Z''),
                    (''latency'', JDict [(''count'', JInt 6), (''average_ms'', JFloat 10),
                                        (''min_ms'', JFloat 10), (''max_ms'', JFloat 10)])])"
proof -
  have h1: "\<bar>elapsed_s summary_example\<bar> \<le> 10 ^ 12"
    by (simp add: summary_example_def)
  have h2: "\<bar>or_zero (mean (latencies summary_example))\<bar> \<le> 10 ^ 12"
    and h3: "\<bar>or_zero (min_ms (latencies summary_example))\<bar> \<le> 10 ^ 12"
    and h4: "\<bar>or_zero (max_ms (latencies summary_example))\<bar> \<le> 10 ^ 12"
    by code_simp+
  have h5: "distinct (map fst (status_counts summary_example))"
    by (simp add: summary_example_def)
  have ev: "to_dict summary_example =
     JDict [(''total_sent'', JInt 6),
            (''elapsed_s'', JFloat (4505851427184181 / 2251799813685248)),
            (''status_counts'', JDict [(''200'', JInt 6)]),
            (''started_at'', JStr ''2024-05-17T09:30:00.000007Z''),
            (''latency'', JDict [(''count'', JInt 6), (''average_ms'', JFloat 10),
                                (''min_ms'', JFloat 10), (''max_ms'', JFloat 10)])]"
    by code_simp
  from summary_round_trip[OF h1 h2 h3 h4 h5, of Map.empty "''out.json''"]
  have "load_json (save_json Map.empty ''out.json'' (to_dict summary_example)) ''out.json''
      = Inr (to_dict summary_example)"
    by blast
  with h1 h5 ev show ?thesis by simp
qed

end
